theory Spec2Isabelle
  imports Complex_Main
begin

section \<open>Data model of the history service\<close>

text \<open>
  The embedding follows \<^verbatim>\<open>src/vs/workbench/services/history/browser/history.ts\<close>.
  A URI is represented by the string its \<^verbatim>\<open>toString()\<close> returns: every comparison
  of resources in the file goes through \<^verbatim>\<open>toString()\<close>.
\<close>

type_synonym URI = string

text \<open>
  An \<^verbatim>\<open>EditorInput\<close> (a resolved input owned by the host). \<open>ident\<close> tells two
  input objects apart, \<open>getName\<close> is the name \<^verbatim>\<open>getName()\<close> returns (empty when
  there is none), and \<open>toResource\<close> is what \<^verbatim>\<open>toResource(input, { filter: 'file' })\<close>
  returns.
\<close>

record EditorInput =
  ident :: nat
  getName :: string
  toResource :: "URI option"

text \<open>
  Modelled from the spec: the class \<^verbatim>\<open>EditorInput\<close> is not part of the source file;
  resolved inputs compare via host-defined identity, so \<^verbatim>\<open>a.matches(b)\<close> is equality
  of the two input objects.
\<close>

definition EditorInput_matches :: "EditorInput \<Rightarrow> EditorInput \<Rightarrow> bool" where
  "EditorInput_matches a b = (a = b)"

text \<open>The union \<^verbatim>\<open>IEditorInput | IResourceInput\<close>.\<close>

datatype Input = Editor EditorInput | Resource URI

text \<open>
  A \<^verbatim>\<open>FileChangesEvent\<close> is used only through
  \<^verbatim>\<open>contains(resource, FileChangeType.DELETED)\<close>.
\<close>

datatype FileChangesEvent = FileChangesEvent (containsDeleted: "URI \<Rightarrow> bool")

text \<open>The argument of the removal functions: an input or a file change event.\<close>

datatype RemoveArg = ArgInput Input | ArgEvent FileChangesEvent

record ITextEditorSelection =
  startLineNumber :: int
  startColumn :: int

text \<open>A \<^verbatim>\<open>Selection\<close> carries the fields of a range and the direction of the selection.\<close>

record Selection = ITextEditorSelection +
  selectionStartLineNumber :: int
  selectionStartColumn :: int
  positionLineNumber :: int
  positionColumn :: int

record ICursorPositionChangedEvent =
  source :: string

record IStackEntry =
  input :: Input
  selection :: "ITextEditorSelection option"
  timestamp :: int

record IRecentlyClosedFile =
  resource :: URI
  closed_index :: int

text \<open>
  \<^verbatim>\<open>TextEditorState\<close>: the private fields \<^verbatim>\<open>_editorInput\<close> and \<^verbatim>\<open>_selection\<close>
  and the \<^verbatim>\<open>textEditorSelection\<close> the constructor derives. A selection that is not a
  selection object (\<^verbatim>\<open>Selection.isISelection\<close> fails) is \<open>None\<close>.
\<close>

record TextEditorState =
  state_editorInput :: EditorInput
  state_selection :: "Selection option"
  textEditorSelection :: "ITextEditorSelection option"

definition TextEditorState_new :: "EditorInput \<Rightarrow> Selection option \<Rightarrow> TextEditorState" where
  "TextEditorState_new i sel =
     \<lparr> state_editorInput = i,
       state_selection = sel,
       textEditorSelection =
         (case sel of
            None \<Rightarrow> None
          | Some x \<Rightarrow> Some \<lparr> startLineNumber = startLineNumber x, startColumn = startColumn x \<rparr>) \<rparr>"

definition EDITOR_SELECTION_THRESHOLD :: int where
  "EDITOR_SELECTION_THRESHOLD = 10"

definition justifiesNewPushState ::
  "TextEditorState \<Rightarrow> TextEditorState \<Rightarrow> ICursorPositionChangedEvent option \<Rightarrow> bool" where
  "justifiesNewPushState this other event =
     (if (case event of None \<Rightarrow> False | Some e \<Rightarrow> source e = ''api'') then True
      else if \<not> EditorInput_matches (state_editorInput this) (state_editorInput other) then True
      else
        (case state_selection this of
           None \<Rightarrow> True
         | Some a \<Rightarrow>
             (case state_selection other of
                None \<Rightarrow> True
              | Some b \<Rightarrow>
                  (let thisLineNumber = min (selectionStartLineNumber a) (positionLineNumber a);
                       otherLineNumber = min (selectionStartLineNumber b) (positionLineNumber b)
                   in if \<bar>thisLineNumber - otherLineNumber\<bar> < EDITOR_SELECTION_THRESHOLD
                      then False else True))))"

text \<open>An open request sent to the editor service by \<^verbatim>\<open>navigate\<close>.\<close>

record OpenRequest =
  target :: Input
  options_selection :: "ITextEditorSelection option"

text \<open>What the active editor shows: its input and, for a code editor, its control.\<close>

datatype IEditor = IEditor (getSelection: "Selection option")

record IBaseEditor =
  editor_input :: "EditorInput option"
  getCodeEditor :: "IEditor option"

text \<open>
  The fields of \<^verbatim>\<open>HistoryService\<close>. \<open>history\<close> is \<open>None\<close> until it is first
  assigned. The last three fields are the collaborators the service writes to: the value
  stored under \<^verbatim>\<open>history.entries\<close>, the open requests sent to the editor service,
  and the resources passed to \<^verbatim>\<open>windowService.removeFromRecentlyOpened\<close>.
\<close>

record HistoryService =
  stack :: "IStackEntry list"
  index :: int
  lastIndex :: int
  navigatingInStack :: bool
  currentTextEditorState :: "TextEditorState option"
  history :: "Input list option"
  recentlyClosedFiles :: "IRecentlyClosedFile list"
  loaded :: bool
  storage :: "string option"
  openEditorRequests :: "OpenRequest list"
  removedFromRecentlyOpened :: "URI list"

definition MAX_HISTORY_ITEMS :: nat where
  "MAX_HISTORY_ITEMS = 200"

definition MAX_STACK_ITEMS :: nat where
  "MAX_STACK_ITEMS = 20"

definition MAX_RECENTLY_CLOSED_EDITORS :: nat where
  "MAX_RECENTLY_CLOSED_EDITORS = 20"

definition MERGE_EVENT_CHANGES_THRESHOLD :: int where
  "MERGE_EVENT_CHANGES_THRESHOLD = 300"

text \<open>The state the constructor leaves, over a given stored value.\<close>

definition init :: "string option \<Rightarrow> HistoryService" where
  "init st =
     \<lparr> stack = [], index = - 1, lastIndex = - 1, navigatingInStack = False,
       currentTextEditorState = None, history = None, recentlyClosedFiles = [],
       loaded = False, storage = st, openEditorRequests = [],
       removedFromRecentlyOpened = [] \<rparr>"

datatype error = SyntaxError | TypeError

section \<open>Array primitives\<close>

text \<open>\<^verbatim>\<open>xs[i]\<close>: \<open>None\<close> is \<^verbatim>\<open>undefined\<close>, read outside the array.\<close>

definition js_get :: "'a list \<Rightarrow> int \<Rightarrow> 'a option" where
  "js_get xs i = (if 0 \<le> i \<and> i < int (length xs) then Some (xs ! nat i) else None)"

text \<open>\<^verbatim>\<open>xs.slice(0, e)\<close>: a negative end counts from the end of the array.\<close>

definition js_slice0 :: "'a list \<Rightarrow> int \<Rightarrow> 'a list" where
  "js_slice0 xs e = (if e < 0 then take (nat (int (length xs) + e)) xs else take (nat e) xs)"

text \<open>
  \<^verbatim>\<open>xs.splice(i, 0, v)\<close>: a start beyond the length is the length, a negative start
  counts from the end.
\<close>

definition js_splice_insert :: "'a list \<Rightarrow> int \<Rightarrow> 'a \<Rightarrow> 'a list" where
  "js_splice_insert xs i v =
     (let k = (if i < 0 then nat (int (length xs) + i) else min (nat i) (length xs))
      in take k xs @ [v] @ drop k xs)"

section \<open>Matching of inputs\<close>

fun matchesFile :: "URI \<Rightarrow> RemoveArg \<Rightarrow> bool" where
  "matchesFile r (ArgEvent e) = containsDeleted e r"
| "matchesFile r (ArgInput (Editor i)) = (case toResource i of None \<Rightarrow> False | Some f \<Rightarrow> f = r)"
| "matchesFile r (ArgInput (Resource r')) = (r' = r)"

fun matches :: "RemoveArg \<Rightarrow> Input \<Rightarrow> bool" where
  "matches (ArgEvent e) (Editor b) = False"
| "matches (ArgEvent e) (Resource r) = containsDeleted e r"
| "matches (ArgInput (Editor a)) (Editor b) = EditorInput_matches a b"
| "matches (ArgInput (Editor a)) (Resource r) = matchesFile r (ArgInput (Editor a))"
| "matches (ArgInput (Resource r)) (Editor b) = matchesFile r (ArgInput (Editor b))"
| "matches (ArgInput (Resource a)) (Resource b) = (a = b)"

definition preferResourceInput :: "EditorInput \<Rightarrow> Input" where
  "preferResourceInput i = (case toResource i of Some f \<Rightarrow> Resource f | None \<Rightarrow> Editor i)"

definition sameSelection ::
  "ITextEditorSelection option \<Rightarrow> ITextEditorSelection option \<Rightarrow> bool" where
  "sameSelection selectionA selectionB =
     (case (selectionA, selectionB) of
        (None, None) \<Rightarrow> True
      | (None, Some b) \<Rightarrow> False
      | (Some a, None) \<Rightarrow> False
      | (Some a, Some b) \<Rightarrow> startLineNumber a = startLineNumber b)"

section \<open>The navigation stack\<close>

definition setIndex :: "int \<Rightarrow> HistoryService \<Rightarrow> HistoryService" where
  "setIndex v s = s\<lparr> lastIndex := index s, index := v \<rparr>"

text \<open>
  \<^verbatim>\<open>addOrReplaceInStack\<close>. \<open>now1\<close> is the reading of \<^verbatim>\<open>Date.now()\<close> compared
  with the current entry's timestamp, \<open>now2\<close> the reading stored in the new entry. The
  assignment \<^verbatim>\<open>this.stack[this.index] = entry\<close> runs only when
  \<^verbatim>\<open>this.stack[this.index]\<close> was read as an entry, so it is an update inside the
  array.
\<close>

definition addOrReplaceInStack ::
  "int \<Rightarrow> int \<Rightarrow> EditorInput \<Rightarrow> ITextEditorSelection option \<Rightarrow> bool \<Rightarrow>
   HistoryService \<Rightarrow> HistoryService" where
  "addOrReplaceInStack now1 now2 inp sel forceReplace s =
     (let replace =
            (case js_get (stack s) (index s) of
               None \<Rightarrow> False
             | Some currentEntry \<Rightarrow>
                 if forceReplace then True
                 else matches (ArgInput (Editor inp)) (input currentEntry) \<and>
                      (sameSelection (selection currentEntry) sel \<or>
                       now1 - timestamp currentEntry < MERGE_EVENT_CHANGES_THRESHOLD));
          stackInput = preferResourceInput inp;
          entry = \<lparr> input = stackInput, selection = sel, timestamp = now2 \<rparr>;
          s1 = (if int (length (stack s)) > index s + 1
                then s\<lparr> stack := js_slice0 (stack s) (index s + 1) \<rparr> else s)
      in if replace then s1\<lparr> stack := (stack s1)[nat (index s1) := entry] \<rparr>
         else
           (let s2 = setIndex (index s1 + 1) s1;
                s3 = s2\<lparr> stack := js_splice_insert (stack s2) (index s2) entry \<rparr>
            in if length (stack s3) > MAX_STACK_ITEMS
               then (let s4 = s3\<lparr> stack := tl (stack s3) \<rparr>
                     in if index s4 > 0 then setIndex (index s4 - 1) s4 else s4)
               else s3))"

definition add ::
  "int \<Rightarrow> int \<Rightarrow> EditorInput \<Rightarrow> ITextEditorSelection option \<Rightarrow> HistoryService \<Rightarrow> HistoryService" where
  "add now1 now2 inp sel s =
     (if \<not> navigatingInStack s then addOrReplaceInStack now1 now2 inp sel False s else s)"

definition replace ::
  "int \<Rightarrow> int \<Rightarrow> EditorInput \<Rightarrow> ITextEditorSelection option \<Rightarrow> HistoryService \<Rightarrow> HistoryService" where
  "replace now1 now2 inp sel s =
     (if \<not> navigatingInStack s then addOrReplaceInStack now1 now2 inp sel True s else s)"

text \<open>
  \<^verbatim>\<open>navigate\<close> reads \<^verbatim>\<open>this.stack[this.index]\<close> and then \<^verbatim>\<open>entry.selection\<close>:
  outside the array that read raises a \<^verbatim>\<open>TypeError\<close>, after the caller has already
  moved the index. Otherwise it sets the flag and sends the open request.
\<close>

definition navigate :: "bool \<Rightarrow> HistoryService \<Rightarrow> error option \<times> HistoryService" where
  "navigate acrossEditors s =
     (case js_get (stack s) (index s) of
        None \<Rightarrow> (Some TypeError, s)
      | Some entry \<Rightarrow>
          (None,
           s\<lparr> navigatingInStack := True,
              openEditorRequests := openEditorRequests s @
                [\<lparr> target = input entry,
                   options_selection = (if acrossEditors then None else selection entry) \<rparr>] \<rparr>))"

text \<open>The completion (or failure) callback of the open request.\<close>

definition openEditorDone :: "HistoryService \<Rightarrow> HistoryService" where
  "openEditorDone s = s\<lparr> navigatingInStack := False \<rparr>"

definition doForwardInEditors :: "HistoryService \<Rightarrow> error option \<times> HistoryService" where
  "doForwardInEditors s = navigate False (setIndex (index s + 1) s)"

definition doBackInEditors :: "HistoryService \<Rightarrow> error option \<times> HistoryService" where
  "doBackInEditors s = navigate False (setIndex (index s - 1) s)"

text \<open>
  The loop of \<^verbatim>\<open>doBackAcrossEditors\<close>, with \<^verbatim>\<open>currentIndex\<close> as a natural number
  (the loop runs while it is positive).
\<close>

fun backLoop :: "HistoryService \<Rightarrow> IStackEntry option \<Rightarrow> nat \<Rightarrow> error option \<times> HistoryService" where
  "backLoop s currentEntry 0 = (None, s)"
| "backLoop s currentEntry (Suc currentIndex) =
     (case currentEntry of
        None \<Rightarrow> (Some TypeError, s)
      | Some c \<Rightarrow>
          (case js_get (stack s) (int currentIndex) of
             None \<Rightarrow> (Some TypeError, s)
           | Some previousEntry \<Rightarrow>
               if \<not> matches (ArgInput (input c)) (input previousEntry)
               then navigate True (setIndex (int currentIndex) s)
               else backLoop s currentEntry currentIndex))"

definition doBackAcrossEditors :: "HistoryService \<Rightarrow> error option \<times> HistoryService" where
  "doBackAcrossEditors s = backLoop s (js_get (stack s) (index s)) (nat (index s))"

text \<open>
  The loop of \<^verbatim>\<open>doForwardAcrossEditors\<close>; the argument is \<^verbatim>\<open>currentIndex\<close>
  before the increment.
\<close>

function forwardLoop ::
  "HistoryService \<Rightarrow> IStackEntry option \<Rightarrow> int \<Rightarrow> error option \<times> HistoryService" where
  "forwardLoop s currentEntry currentIndex =
     (if int (length (stack s)) > currentIndex + 1
      then
        (case currentEntry of
           None \<Rightarrow> (Some TypeError, s)
         | Some c \<Rightarrow>
             (case js_get (stack s) (currentIndex + 1) of
                None \<Rightarrow> (Some TypeError, s)
              | Some previousEntry \<Rightarrow>
                  if \<not> matches (ArgInput (input c)) (input previousEntry)
                  then navigate True (setIndex (currentIndex + 1) s)
                  else forwardLoop s currentEntry (currentIndex + 1)))
      else (None, s))"
  by pat_completeness auto
termination
  by (relation "measure (\<lambda>(s, c, i). nat (int (length (stack s)) - i))") auto

declare forwardLoop.simps [simp del]

definition doForwardAcrossEditors :: "HistoryService \<Rightarrow> error option \<times> HistoryService" where
  "doForwardAcrossEditors s = forwardLoop s (js_get (stack s) (index s)) (index s)"

definition forward :: "bool \<Rightarrow> HistoryService \<Rightarrow> error option \<times> HistoryService" where
  "forward acrossEditors s =
     (if int (length (stack s)) > index s + 1
      then (if acrossEditors then doForwardAcrossEditors s else doForwardInEditors s)
      else (None, s))"

definition back' :: "bool \<Rightarrow> HistoryService \<Rightarrow> error option \<times> HistoryService" where
  "back' acrossEditors s =
     (if index s > 0
      then (if acrossEditors then doBackAcrossEditors s else doBackInEditors s)
      else (None, s))"

definition last' :: "HistoryService \<Rightarrow> error option \<times> HistoryService" where
  "last' s =
     (if lastIndex s = - 1 then back' False s
      else navigate False (setIndex (lastIndex s) s))"

definition removeFromStack :: "RemoveArg \<Rightarrow> HistoryService \<Rightarrow> HistoryService" where
  "removeFromStack arg1 s =
     (let st = filter (\<lambda>e. \<not> matches arg1 (input e)) (stack s)
      in s\<lparr> stack := st, index := int (length st) - 1, lastIndex := - 1 \<rparr>)"

section \<open>The recency history and its persistence\<close>

text \<open>
  The value \<^verbatim>\<open>JSON.parse\<close> returns. Only the truth value of a number is read, so a
  number is a real.
\<close>

datatype json =
    JNull
  | JBool bool
  | JNum real
  | JStr string
  | JArr "json list"
  | JObj "(string \<times> json) list"

text \<open>
  The functions of the platform the persistence code calls: \<^verbatim>\<open>JSON.parse\<close> (\<open>None\<close>
  when it throws a \<^verbatim>\<open>SyntaxError\<close>), \<^verbatim>\<open>JSON.stringify\<close>, \<^verbatim>\<open>URI.toJSON\<close>,
  \<^verbatim>\<open>URI.revive\<close>, \<^verbatim>\<open>URI.parse\<close> and the matcher of the exclusion filter. None of
  them is defined in the source file, so the model takes them as a parameter.
\<close>

record Host =
  JSON_parse :: "string \<Rightarrow> json option"
  JSON_stringify :: "json \<Rightarrow> string"
  URI_toJSON :: "URI \<Rightarrow> json"
  URI_revive :: "json \<Rightarrow> URI"
  URI_parse :: "json \<Rightarrow> URI"
  resourceFilter_matches :: "URI \<Rightarrow> bool"

text \<open>Truth value of a property that was read; \<open>None\<close> is \<^verbatim>\<open>undefined\<close>.\<close>

fun js_truthy :: "json option \<Rightarrow> bool" where
  "js_truthy None = False"
| "js_truthy (Some JNull) = False"
| "js_truthy (Some (JBool b)) = b"
| "js_truthy (Some (JNum r)) = (r \<noteq> 0)"
| "js_truthy (Some (JStr s)) = (s \<noteq> [])"
| "js_truthy (Some (JArr xs)) = True"
| "js_truthy (Some (JObj kvs)) = True"

text \<open>
  Reading a property of a value other than \<^verbatim>\<open>null\<close>: only an object parsed from JSON
  has a property named \<^verbatim>\<open>resource\<close> or \<^verbatim>\<open>resourceJSON\<close>.
\<close>

fun js_prop :: "json \<Rightarrow> string \<Rightarrow> json option" where
  "js_prop (JObj kvs) k = map_of kvs k"
| "js_prop j k = None"

text \<open>
  The function mapped over the parsed entries by \<^verbatim>\<open>loadHistory\<close>. Reading a property
  of \<^verbatim>\<open>null\<close> raises. The source tests \<^verbatim>\<open>resource || resourceJSON\<close> and then picks
  \<^verbatim>\<open>URI.revive(resourceJSON)\<close> when \<^verbatim>\<open>resourceJSON\<close> is truthy, else
  \<^verbatim>\<open>URI.parse(resource)\<close>; \<open>Inr None\<close> is the \<^verbatim>\<open>undefined\<close> the filter drops.
\<close>

definition loadHistory_entry :: "Host \<Rightarrow> json \<Rightarrow> error + Input option" where
  "loadHistory_entry h entry =
     (case entry of
        JNull \<Rightarrow> Inl TypeError
      | _ \<Rightarrow>
          (let r = js_prop entry ''resource''; rj = js_prop entry ''resourceJSON''
           in if js_truthy r \<or> js_truthy rj
              then
                (case (if js_truthy rj then rj else None) of
                   Some j \<Rightarrow> Inr (Some (Resource (URI_revive h j)))
                 | None \<Rightarrow>
                     (case r of
                        Some x \<Rightarrow> Inr (Some (Resource (URI_parse h x)))
                      | None \<Rightarrow> Inr None))
              else Inr None))"

fun loadHistory_entries :: "Host \<Rightarrow> json list \<Rightarrow> error + Input option list" where
  "loadHistory_entries h [] = Inr []"
| "loadHistory_entries h (e # es) =
     (case loadHistory_entry h e of
        Inl err \<Rightarrow> Inl err
      | Inr x \<Rightarrow>
          (case loadHistory_entries h es of
             Inl err \<Rightarrow> Inl err
           | Inr xs \<Rightarrow> Inr (x # xs)))"

text \<open>
  \<^verbatim>\<open>loadHistory\<close>. An absent or empty stored string is falsy and leaves the empty array;
  \<^verbatim>\<open>entries.map\<close> on a parsed value that is not an array raises a \<^verbatim>\<open>TypeError\<close>.
  \<^verbatim>\<open>this.history\<close> is assigned last, so an exception leaves the state as it was.
\<close>

definition loadHistory :: "Host \<Rightarrow> HistoryService \<Rightarrow> error + HistoryService" where
  "loadHistory h s =
     (case (case storage s of
              None \<Rightarrow> Inr (JArr [])
            | Some entriesRaw \<Rightarrow>
                if entriesRaw = [] then Inr (JArr [])
                else (case JSON_parse h entriesRaw of
                        None \<Rightarrow> Inl SyntaxError
                      | Some j \<Rightarrow> Inr j)) of
        Inl err \<Rightarrow> Inl err
      | Inr (JArr entries) \<Rightarrow>
          (case loadHistory_entries h entries of
             Inl err \<Rightarrow> Inl err
           | Inr inputs \<Rightarrow> Inr (s\<lparr> history := Some (List.map_filter (\<lambda>x. x) inputs) \<rparr>))
      | Inr _ \<Rightarrow> Inl TypeError)"

definition ensureHistoryLoaded :: "Host \<Rightarrow> HistoryService \<Rightarrow> error + HistoryService" where
  "ensureHistoryLoaded h s =
     (if \<not> loaded s
      then (case loadHistory h s of
              Inl err \<Rightarrow> Inl err
            | Inr s' \<Rightarrow> Inr (s'\<lparr> loaded := True \<rparr>))
      else Inr (s\<lparr> loaded := True \<rparr>))"

text \<open>\<^verbatim>\<open>getHistory\<close> returns a copy of the list; reading a list never assigned raises.\<close>

definition getHistory :: "Host \<Rightarrow> HistoryService \<Rightarrow> error + (Input list \<times> HistoryService)" where
  "getHistory h s =
     (case ensureHistoryLoaded h s of
        Inl err \<Rightarrow> Inl err
      | Inr s' \<Rightarrow>
          (case history s' of
             None \<Rightarrow> Inl TypeError
           | Some hs \<Rightarrow> Inr (hs, s')))"

definition save :: "Host \<Rightarrow> HistoryService \<Rightarrow> HistoryService" where
  "save h s =
     (case history s of
        None \<Rightarrow> s
      | Some hs \<Rightarrow>
          (let entries =
                 List.map_filter
                   (\<lambda>i. case i of
                           Editor e \<Rightarrow> None
                         | Resource r \<Rightarrow> Some (JObj [(''resourceJSON'', URI_toJSON h r)]))
                   hs
           in s\<lparr> storage := Some (JSON_stringify h (JArr entries)) \<rparr>))"

definition include' :: "Host \<Rightarrow> Input \<Rightarrow> bool" where
  "include' h i = (case i of Editor e \<Rightarrow> True | Resource r \<Rightarrow> \<not> resourceFilter_matches h r)"

definition removeFromHistory :: "Host \<Rightarrow> RemoveArg \<Rightarrow> HistoryService \<Rightarrow> error + HistoryService" where
  "removeFromHistory h arg1 s =
     (case ensureHistoryLoaded h s of
        Inl err \<Rightarrow> Inl err
      | Inr s' \<Rightarrow>
          (case history s' of
             None \<Rightarrow> Inl TypeError
           | Some hs \<Rightarrow> Inr (s'\<lparr> history := Some (filter (\<lambda>e. \<not> matches arg1 e) hs) \<rparr>)))"

definition removeExcludedFromHistory :: "Host \<Rightarrow> HistoryService \<Rightarrow> error + HistoryService" where
  "removeExcludedFromHistory h s =
     (case ensureHistoryLoaded h s of
        Inl err \<Rightarrow> Inl err
      | Inr s' \<Rightarrow>
          (case history s' of
             None \<Rightarrow> Inl TypeError
           | Some hs \<Rightarrow> Inr (s'\<lparr> history := Some (filter (include' h) hs) \<rparr>)))"

definition handleExcludesChange :: "Host \<Rightarrow> HistoryService \<Rightarrow> error + HistoryService" where
  "handleExcludesChange h s = removeExcludedFromHistory h s"

text \<open>
  \<^verbatim>\<open>handleEditorEventInHistory\<close>. The only statement that can raise is the first
  \<^verbatim>\<open>ensureHistoryLoaded\<close>, before anything is assigned. The disposal listener the
  source registers at the end is a registration with the host and changes no field.
\<close>

definition handleEditorEventInHistory ::
  "Host \<Rightarrow> IBaseEditor option \<Rightarrow> HistoryService \<Rightarrow> error + HistoryService" where
  "handleEditorEventInHistory h editor s =
     (case (case editor of None \<Rightarrow> None | Some e \<Rightarrow> editor_input e) of
        None \<Rightarrow> Inr s
      | Some inp \<Rightarrow>
          if getName inp = [] \<or> \<not> include' h (Editor inp) then Inr s
          else
            (case ensureHistoryLoaded h s of
               Inl err \<Rightarrow> Inl err
             | Inr s1 \<Rightarrow>
                 (let historyInput = preferResourceInput inp
                  in case removeFromHistory h (ArgInput (Editor inp)) s1 of
                       Inl err \<Rightarrow> Inl err
                     | Inr s2 \<Rightarrow>
                         (case history s2 of
                            None \<Rightarrow> Inl TypeError
                          | Some hs \<Rightarrow>
                              (let hs1 = historyInput # hs;
                                   hs2 = (if length hs1 > MAX_HISTORY_ITEMS then butlast hs1 else hs1)
                               in Inr (s2\<lparr> history := Some hs2 \<rparr>))))))"

section \<open>Events of the active editor\<close>

definition handleNonTextEditorEvent ::
  "int \<Rightarrow> int \<Rightarrow> EditorInput \<Rightarrow> HistoryService \<Rightarrow> HistoryService" where
  "handleNonTextEditorEvent now1 now2 inp s =
     (case js_get (stack s) (index s) of
        Some currentStack \<Rightarrow>
          if matches (ArgInput (Editor inp)) (input currentStack) then s
          else add now1 now2 inp None s
      | None \<Rightarrow> add now1 now2 inp None s)"

definition handleTextEditorEvent ::
  "int \<Rightarrow> int \<Rightarrow> EditorInput \<Rightarrow> IEditor \<Rightarrow> ICursorPositionChangedEvent option \<Rightarrow>
   HistoryService \<Rightarrow> HistoryService" where
  "handleTextEditorEvent now1 now2 inp editorControl event s =
     (let stateCandidate = TextEditorState_new inp (getSelection editorControl);
          s1 = (case currentTextEditorState s of
                  None \<Rightarrow> add now1 now2 inp (textEditorSelection stateCandidate) s
                | Some cur \<Rightarrow>
                    if justifiesNewPushState cur stateCandidate event
                    then add now1 now2 inp (textEditorSelection stateCandidate) s
                    else replace now1 now2 inp (textEditorSelection stateCandidate) s)
      in s1\<lparr> currentTextEditorState := Some stateCandidate \<rparr>)"

definition handleEditorEventInStack ::
  "int \<Rightarrow> int \<Rightarrow> IBaseEditor option \<Rightarrow> ICursorPositionChangedEvent option \<Rightarrow>
   HistoryService \<Rightarrow> HistoryService" where
  "handleEditorEventInStack now1 now2 editor event s =
     (let control = (case editor of None \<Rightarrow> None | Some e \<Rightarrow> getCodeEditor e);
          inp = (case editor of None \<Rightarrow> None | Some e \<Rightarrow> editor_input e)
      in if navigatingInStack s
         then
           (case (control, inp) of
              (Some c, Some i) \<Rightarrow>
                s\<lparr> currentTextEditorState := Some (TextEditorState_new i (getSelection c)) \<rparr>
            | _ \<Rightarrow> s\<lparr> currentTextEditorState := None \<rparr>)
         else
           (case (control, inp) of
              (Some c, Some i) \<Rightarrow> handleTextEditorEvent now1 now2 i c event s
            | _ \<Rightarrow>
                (let s1 = s\<lparr> currentTextEditorState := None \<rparr>
                 in case inp of
                      Some i \<Rightarrow> handleNonTextEditorEvent now1 now2 i s1
                    | None \<Rightarrow> s1)))"

definition handleEditorSelectionChangeEvent ::
  "int \<Rightarrow> int \<Rightarrow> IBaseEditor option \<Rightarrow> ICursorPositionChangedEvent option \<Rightarrow>
   HistoryService \<Rightarrow> HistoryService" where
  "handleEditorSelectionChangeEvent now1 now2 editor event s =
     handleEditorEventInStack now1 now2 editor event s"

definition handleActiveEditorChange ::
  "Host \<Rightarrow> int \<Rightarrow> int \<Rightarrow> IBaseEditor option \<Rightarrow> HistoryService \<Rightarrow> error + HistoryService" where
  "handleActiveEditorChange h now1 now2 editor s =
     (case handleEditorEventInHistory h editor s of
        Inl err \<Rightarrow> Inl err
      | Inr s' \<Rightarrow> Inr (handleEditorEventInStack now1 now2 editor None s'))"

section \<open>Removal and clearing\<close>

definition removeFromRecentlyClosedFiles :: "RemoveArg \<Rightarrow> HistoryService \<Rightarrow> HistoryService" where
  "removeFromRecentlyClosedFiles arg1 s =
     s\<lparr> recentlyClosedFiles := filter (\<lambda>e. \<not> matchesFile (resource e) arg1) (recentlyClosedFiles s) \<rparr>"

definition removeFromRecentlyOpened :: "RemoveArg \<Rightarrow> HistoryService \<Rightarrow> HistoryService" where
  "removeFromRecentlyOpened arg1 s =
     (case arg1 of
        ArgEvent e \<Rightarrow> s
      | ArgInput (Editor i) \<Rightarrow> s
      | ArgInput (Resource r) \<Rightarrow> s\<lparr> removedFromRecentlyOpened := removedFromRecentlyOpened s @ [r] \<rparr>)"

definition remove :: "Host \<Rightarrow> RemoveArg \<Rightarrow> HistoryService \<Rightarrow> error + HistoryService" where
  "remove h arg1 s =
     (case removeFromHistory h arg1 s of
        Inl err \<Rightarrow> Inl err
      | Inr s1 \<Rightarrow>
          Inr (removeFromRecentlyOpened arg1
                 (removeFromRecentlyClosedFiles arg1 (removeFromStack arg1 s1))))"

definition clear :: "Host \<Rightarrow> HistoryService \<Rightarrow> error + HistoryService" where
  "clear h s =
     (case ensureHistoryLoaded h s of
        Inl err \<Rightarrow> Inl err
      | Inr s' \<Rightarrow>
          Inr (s'\<lparr> index := - 1, lastIndex := - 1, stack := [], history := Some [],
                  recentlyClosedFiles := [] \<rparr>))"

section \<open>Invariants of the data model\<close>

text \<open>
  The cursor invariant of the data model: the index is \<open>-1\<close> on an empty stack and on
  an entry of a stack that is not empty.
\<close>

definition cursor_ok :: "HistoryService \<Rightarrow> bool" where
  "cursor_ok s =
     (if stack s = [] then index s = - 1
      else 0 \<le> index s \<and> index s < int (length (stack s)))"

text \<open>
  No two entries of a history have the same document identity: no entry matches another,
  in either direction.
\<close>

fun no_duplicates :: "Input list \<Rightarrow> bool" where
  "no_duplicates [] = True"
| "no_duplicates (x # xs) =
     (list_all (\<lambda>y. \<not> matches (ArgInput x) y \<and> \<not> matches (ArgInput y) x) xs \<and> no_duplicates xs)"

text \<open>
  What \<^verbatim>\<open>preferResourceInput\<close> leaves in a list: a resolved input is kept only when
  it has no backing file.
\<close>

definition descriptor_preferred :: "Input \<Rightarrow> bool" where
  "descriptor_preferred i = (case i of Editor e \<Rightarrow> toResource e = None | Resource r \<Rightarrow> True)"

definition history_inv :: "Input list \<Rightarrow> bool" where
  "history_inv hs =
     (no_duplicates hs \<and> length hs \<le> MAX_HISTORY_ITEMS \<and> list_all descriptor_preferred hs)"

text \<open>
  The entry \<^verbatim>\<open>addOrReplaceInStack\<close> builds for a document, a selection object and a
  reading of the clock.
\<close>

definition stack_entry :: "EditorInput \<Rightarrow> Selection \<Rightarrow> int \<Rightarrow> IStackEntry" where
  "stack_entry d sel t =
     \<lparr> input = preferResourceInput d,
       selection = Some \<lparr> startLineNumber = startLineNumber sel, startColumn = startColumn sel \<rparr>,
       timestamp = t \<rparr>"

section \<open>Sequences of operations\<close>

text \<open>
  What can happen to a service: the events of the active editor, the public operations,
  the completion of an open request, the two disposal listeners (the one
  \<^verbatim>\<open>handleEditorEventInHistory\<close> registers calls \<^verbatim>\<open>removeFromHistory\<close>, the one
  \<^verbatim>\<open>addOrReplaceInStack\<close> registers calls \<^verbatim>\<open>removeFromStack\<close>), a change of the
  exclusions and the shutdown. A listener may fire here whether or not it was registered.
  The tracking of closed editors is left out: it assigns only the list of closed files, and
  reopening one loads the history as \<^verbatim>\<open>getHistory\<close> does.
\<close>

datatype Op =
    ActiveEditorChange int int "IBaseEditor option"
  | SelectionChange int int "IBaseEditor option" "ICursorPositionChangedEvent option"
  | Add int int EditorInput "ITextEditorSelection option"
  | Back bool
  | Forward bool
  | Last
  | OpenEditorDone
  | Remove RemoveArg
  | HistoryInputDisposed EditorInput
  | StackInputDisposed EditorInput
  | ExcludesChange
  | Clear
  | GetHistory
  | Shutdown

text \<open>An operation that raises leaves the state as the exception found it.\<close>

definition settle :: "HistoryService \<Rightarrow> error + HistoryService \<Rightarrow> HistoryService" where
  "settle s r = (case r of Inl err \<Rightarrow> s | Inr s' \<Rightarrow> s')"

fun step :: "Host \<Rightarrow> Op \<Rightarrow> HistoryService \<Rightarrow> HistoryService" where
  "step h (ActiveEditorChange now1 now2 e) s = settle s (handleActiveEditorChange h now1 now2 e s)"
| "step h (SelectionChange now1 now2 e ev) s = handleEditorSelectionChangeEvent now1 now2 e ev s"
| "step h (Add now1 now2 i sel) s = add now1 now2 i sel s"
| "step h (Back across) s = snd (back' across s)"
| "step h (Forward across) s = snd (forward across s)"
| "step h Last s = snd (last' s)"
| "step h OpenEditorDone s = openEditorDone s"
| "step h (Remove arg1) s = settle s (remove h arg1 s)"
| "step h (HistoryInputDisposed i) s = settle s (removeFromHistory h (ArgInput (Editor i)) s)"
| "step h (StackInputDisposed i) s = removeFromStack (ArgInput (Editor i)) s"
| "step h ExcludesChange s = settle s (handleExcludesChange h s)"
| "step h Clear s = settle s (clear h s)"
| "step h GetHistory s = (case getHistory h s of Inl err \<Rightarrow> s | Inr (hs, s') \<Rightarrow> s')"
| "step h Shutdown s = save h s"

fun run :: "Host \<Rightarrow> Op list \<Rightarrow> HistoryService \<Rightarrow> HistoryService" where
  "run h [] s = s"
| "run h (x # xs) s = run h xs (step h x s)"

text \<open>
  The history \<^verbatim>\<open>loadHistory\<close> reads from a stored value in a fresh service; \<open>None\<close>
  when it raises.
\<close>

definition stored_history :: "Host \<Rightarrow> string option \<Rightarrow> Input list option" where
  "stored_history h st = (case loadHistory h (init st) of Inl err \<Rightarrow> None | Inr s \<Rightarrow> history s)"

text \<open>
  The stored history, when it can be read, has no two entries with the same document
  identity and no more entries than the history may hold.
\<close>

definition stored_ok :: "Host \<Rightarrow> string option \<Rightarrow> bool" where
  "stored_ok h st =
     (case stored_history h st of
        None \<Rightarrow> True
      | Some hs \<Rightarrow> no_duplicates hs \<and> length hs \<le> MAX_HISTORY_ITEMS)"

text \<open>
  What the history of a service is expected to be, given the value stored when it was
  constructed: nothing before the load, and a list satisfying the invariant after it.
\<close>

definition history_ok :: "string option \<Rightarrow> HistoryService \<Rightarrow> bool" where
  "history_ok st s =
     (if loaded s then (case history s of None \<Rightarrow> False | Some hs \<Rightarrow> history_inv hs)
      else history s = None \<and> storage s = st)"

section \<open>Example inputs\<close>

text \<open>Document \<open>k\<close>: a resolved input with a name and no backing file.\<close>

definition doc :: "nat \<Rightarrow> EditorInput" where
  "doc k = \<lparr> ident = k, getName = ''d'', toResource = None \<rparr>"

text \<open>
  A fresh service after \<open>n\<close> calls of \<^verbatim>\<open>add\<close>, one per second, each with another
  document and no selection.
\<close>

definition visits :: "nat \<Rightarrow> HistoryService" where
  "visits n =
     foldl (\<lambda>s k. add (1000 * int k) (1000 * int k) (doc k) None s) (init None) [0..<n]"

text \<open>Four documents without a backing file, and the entries three visits leave.\<close>

definition docA :: EditorInput where
  "docA = \<lparr> ident = 0, getName = ''a'', toResource = None \<rparr>"

definition docB :: EditorInput where
  "docB = \<lparr> ident = 1, getName = ''b'', toResource = None \<rparr>"

definition docC :: EditorInput where
  "docC = \<lparr> ident = 2, getName = ''c'', toResource = None \<rparr>"

definition docD :: EditorInput where
  "docD = \<lparr> ident = 3, getName = ''d'', toResource = None \<rparr>"

definition entryA :: IStackEntry where
  "entryA = \<lparr> input = Editor docA, selection = None, timestamp = 0 \<rparr>"

definition entryB :: IStackEntry where
  "entryB = \<lparr> input = Editor docB, selection = None, timestamp = 1000 \<rparr>"

definition entryC :: IStackEntry where
  "entryC = \<lparr> input = Editor docC, selection = None, timestamp = 2000 \<rparr>"

text \<open>The stack [A, B, C] with the index on C, built by three calls of \<^verbatim>\<open>add\<close>.\<close>

definition abc :: HistoryService where
  "abc = add 2000 2000 docC None (add 1000 1000 docB None (add 0 0 docA None (init None)))"

text \<open>The same stack after \<^verbatim>\<open>back()\<close> has completed: the index is on B.\<close>

definition abc_at_b :: HistoryService where
  "abc_at_b = openEditorDone (snd (back' False abc))"

text \<open>The same state once the (empty) history has been loaded.\<close>

definition abc_at_b_loaded :: HistoryService where
  "abc_at_b_loaded = abc_at_b\<lparr> history := Some [], loaded := True \<rparr>"

text \<open>
  A host for the examples. Its \<^verbatim>\<open>JSON.parse\<close> and \<^verbatim>\<open>JSON.stringify\<close> know the two
  texts the examples store, the empty array and the array \<open>sample_json\<close>; every other
  text the examples parse is not JSON, and is rejected. A URI is serialised to an object
  holding its string form, from which it is revived.
\<close>

definition sample_raw :: string where
  "sample_raw = ''[{\"resourceJSON\":{\"external\":\"file:///a\"}}]''"

definition sample_json :: json where
  "sample_json = JArr [JObj [(''resourceJSON'', JObj [(''external'', JStr ''file:///a'')])]]"

definition demoHost :: Host where
  "demoHost =
     \<lparr> JSON_parse =
         (\<lambda>s. if s = sample_raw then Some sample_json
              else if s = ''[]'' then Some (JArr [])
              else None),
       JSON_stringify =
         (\<lambda>j. if j = sample_json then sample_raw
              else if j = JArr [] then ''[]''
              else ''null''),
       URI_toJSON = (\<lambda>u. JObj [(''external'', JStr u)]),
       URI_revive = (\<lambda>j. case js_prop j ''external'' of Some (JStr u) \<Rightarrow> u | _ \<Rightarrow> []),
       URI_parse = (\<lambda>j. case j of JStr u \<Rightarrow> u | _ \<Rightarrow> []),
       resourceFilter_matches = (\<lambda>u. False) \<rparr>"

text \<open>The resources of the resource descriptors of a history, in order.\<close>

definition history_resources :: "Input list \<Rightarrow> URI list" where
  "history_resources hs = List.map_filter (\<lambda>i. case i of Editor e \<Rightarrow> None | Resource r \<Rightarrow> Some r) hs"

text \<open>A loaded history holding a resolved input and a resource descriptor.\<close>

definition mixed_history :: HistoryService where
  "mixed_history = (init None)\<lparr> history := Some [Editor docA, Resource ''file:///a''], loaded := True \<rparr>"

text \<open>A collapsed selection on a line, and a code editor showing a document with a selection.\<close>

definition selection_at :: "int \<Rightarrow> Selection" where
  "selection_at n =
     \<lparr> startLineNumber = n, startColumn = 1, selectionStartLineNumber = n,
       selectionStartColumn = 1, positionLineNumber = n, positionColumn = 1 \<rparr>"

definition textEditor :: "EditorInput \<Rightarrow> Selection \<Rightarrow> IBaseEditor" where
  "textEditor d sel = \<lparr> editor_input = Some d, getCodeEditor = Some (IEditor (Some sel)) \<rparr>"

text \<open>
  A fresh service after a selection change on line 100 of document A at time 0, and after
  a second selection change on the given line at the given time.
\<close>

definition first_move :: HistoryService where
  "first_move =
     handleEditorSelectionChangeEvent 0 0 (Some (textEditor docA (selection_at 100))) None (init None)"

definition second_move :: "int \<Rightarrow> int \<Rightarrow> HistoryService" where
  "second_move line t =
     handleEditorSelectionChangeEvent t t (Some (textEditor docA (selection_at line))) None first_move"

text \<open>An editor on a document backed by the file of \<open>mixed_history\<close>.\<close>

definition editorFileA :: IBaseEditor where
  "editorFileA =
     \<lparr> editor_input = Some \<lparr> ident = 7, getName = ''a.ts'', toResource = Some ''file:///a'' \<rparr>,
       getCodeEditor = None \<rparr>"

text \<open>An editor on document B, which has no backing file and no code editor.\<close>

definition editorB :: IBaseEditor where
  "editorB = \<lparr> editor_input = Some docB, getCodeEditor = None \<rparr>"

text \<open>
  A stored history that names the same file twice, and the example host extended to
  parse it.
\<close>

definition dup_raw :: string where
  "dup_raw =
     ''[{\"resourceJSON\":{\"external\":\"file:///a\"}},{\"resourceJSON\":{\"external\":\"file:///a\"}}]''"

definition dup_json :: json where
  "dup_json =
     JArr [JObj [(''resourceJSON'', JObj [(''external'', JStr ''file:///a'')])],
           JObj [(''resourceJSON'', JObj [(''external'', JStr ''file:///a'')])]]"

definition dupHost :: Host where
  "dupHost =
     demoHost\<lparr> JSON_parse :=
       (\<lambda>s. if s = dup_raw then Some dup_json else JSON_parse demoHost s) \<rparr>"

text \<open>
  A service constructed over the stored text \<open>sample_raw\<close>, after document B has become
  the active editor.
\<close>

definition after_b :: HistoryService where
  "after_b = run demoHost [ActiveEditorChange 0 0 (Some editorB)] (init (Some sample_raw))"

text \<open>The state \<^verbatim>\<open>last()\<close> leaves after 21 visits: the index is past the end of the stack.\<close>

definition past_end :: HistoryService where
  "past_end = snd (last' (visits 21))"

section \<open>Replacing and pushing stack entries\<close>

text \<open>
  Two lemmas describe \<^verbatim>\<open>addOrReplaceInStack\<close> when the index is on an entry: what it
  leaves when the local \<^verbatim>\<open>replace\<close> is set, and what it leaves when it is not.
\<close>

lemma js_get_Some: "js_get xs i = Some x \<Longrightarrow> 0 \<le> i \<and> i < int (length xs) \<and> xs ! nat i = x"
  by (auto simp: js_get_def split: if_splits)

lemma js_splice_insert_end: "i = int (length xs) \<Longrightarrow> js_splice_insert xs i e = xs @ [e]"
  by (simp add: js_splice_insert_def)

lemma truncate_stack:
  assumes "0 \<le> index s" "index s < int (length (stack s))"
  shows "(if int (length (stack s)) > index s + 1
          then s\<lparr> stack := js_slice0 (stack s) (index s + 1) \<rparr> else s)
         = s\<lparr> stack := take (nat (index s + 1)) (stack s) \<rparr>"
  using assms by (auto simp: js_slice0_def)

lemma take_update_last: "k < length xs \<Longrightarrow> (take (Suc k) xs)[k := e] = take k xs @ [e]"
  by (simp add: take_Suc_conv_app_nth list_update_append)

lemma addOrReplaceInStack_replaces:
  assumes cur: "js_get (stack s) (index s) = Some cur"
    and dec: "forceReplace \<or> matches (ArgInput (Editor inp)) (input cur) \<and>
               (sameSelection (selection cur) sel \<or>
                now1 - timestamp cur < MERGE_EVENT_CHANGES_THRESHOLD)"
  shows "addOrReplaceInStack now1 now2 inp sel forceReplace s =
         s\<lparr> stack := take (nat (index s)) (stack s) @
                [\<lparr> input = preferResourceInput inp, selection = sel, timestamp = now2 \<rparr>] \<rparr>"
proof -
  from cur have r: "0 \<le> index s" "index s < int (length (stack s))"
    by (auto dest: js_get_Some)
  then have k: "nat (index s) < length (stack s)" "nat (index s + 1) = Suc (nat (index s))"
    by auto
  show ?thesis
    unfolding addOrReplaceInStack_def truncate_stack [OF r]
    using dec by (auto simp: cur Let_def k take_update_last)
qed

lemma addOrReplaceInStack_pushes:
  assumes cur: "js_get (stack s) (index s) = Some cur"
    and dec: "\<not> (forceReplace \<or> matches (ArgInput (Editor inp)) (input cur) \<and>
               (sameSelection (selection cur) sel \<or>
                now1 - timestamp cur < MERGE_EVENT_CHANGES_THRESHOLD))"
  shows "addOrReplaceInStack now1 now2 inp sel forceReplace s =
         (let kept = take (nat (index s + 1)) (stack s) @
                [\<lparr> input = preferResourceInput inp, selection = sel, timestamp = now2 \<rparr>]
          in if length kept > MAX_STACK_ITEMS
             then s\<lparr> stack := tl kept, lastIndex := index s + 1, index := index s \<rparr>
             else s\<lparr> stack := kept, lastIndex := index s, index := index s + 1 \<rparr>)"
proof -
  from cur have r: "0 \<le> index s" "index s < int (length (stack s))"
    by (auto dest: js_get_Some)
  then have k: "int (length (take (nat (index s + 1)) (stack s))) = index s + 1"
    by auto
  show ?thesis
    unfolding addOrReplaceInStack_def truncate_stack [OF r]
    using dec r by (auto simp: cur Let_def setIndex_def js_splice_insert_end [OF k [symmetric]])
qed

lemma sameSelection_iff:
  "sameSelection a b \<longleftrightarrow>
     (a = None \<and> b = None) \<or>
     (\<exists>x y. a = Some x \<and> b = Some y \<and> startLineNumber x = startLineNumber y)"
  by (auto simp: sameSelection_def split: option.splits)

text \<open>
  On a stack that satisfies the cursor invariant within its capacity,
  \<^verbatim>\<open>addOrReplaceInStack\<close> always leaves the index on the entry it has built, which
  is the last entry of the stack.
\<close>

lemma matches_preferResourceInput: "matches (ArgInput (Editor d)) (preferResourceInput d)"
  by (auto simp: preferResourceInput_def EditorInput_matches_def split: option.splits)

lemma addOrReplaceInStack_empty:
  assumes "stack s = []" "index s = - 1"
  shows "addOrReplaceInStack now1 now2 inp sel forceReplace s =
         s\<lparr> stack := [\<lparr> input = preferResourceInput inp, selection = sel, timestamp = now2 \<rparr>],
            lastIndex := - 1, index := 0 \<rparr>"
  using assms
  by (simp add: addOrReplaceInStack_def js_get_def setIndex_def js_splice_insert_def
      MAX_STACK_ITEMS_def Let_def)

lemma addOrReplaceInStack_top:
  assumes ok: "cursor_ok s" and cap: "length (stack s) \<le> 20"
  shows "js_get (stack (addOrReplaceInStack now1 now2 inp sel forceReplace s))
               (index (addOrReplaceInStack now1 now2 inp sel forceReplace s)) =
           Some \<lparr> input = preferResourceInput inp, selection = sel, timestamp = now2 \<rparr> \<and>
         index (addOrReplaceInStack now1 now2 inp sel forceReplace s) + 1 =
           int (length (stack (addOrReplaceInStack now1 now2 inp sel forceReplace s))) \<and>
         length (stack (addOrReplaceInStack now1 now2 inp sel forceReplace s)) \<le> 20 \<and>
         navigatingInStack (addOrReplaceInStack now1 now2 inp sel forceReplace s) =
           navigatingInStack s"
proof (cases "stack s = []")
  case True
  with ok have "index s = - 1"
    by (simp add: cursor_ok_def)
  from addOrReplaceInStack_empty [OF True this] show ?thesis
    by (simp add: js_get_def)
next
  case False
  with ok have r: "0 \<le> index s" "index s < int (length (stack s))"
    by (simp_all add: cursor_ok_def)
  then have cur: "js_get (stack s) (index s) = Some (stack s ! nat (index s))"
    by (simp add: js_get_def)
  let ?c = "forceReplace \<or> matches (ArgInput (Editor inp)) (input (stack s ! nat (index s))) \<and>
            (sameSelection (selection (stack s ! nat (index s))) sel \<or>
             now1 - timestamp (stack s ! nat (index s)) < MERGE_EVENT_CHANGES_THRESHOLD)"
  show ?thesis
  proof (cases ?c)
    case True
    from addOrReplaceInStack_replaces [OF cur True] r cap show ?thesis
      by (simp add: js_get_def nth_append)
  next
    case False
    from addOrReplaceInStack_pushes [OF cur False] r cap show ?thesis
      by (auto simp: js_get_def nth_append Let_def MAX_STACK_ITEMS_def nth_tl min_def
          split: if_splits)
  qed
qed

lemma abc_at_b_eval:
  "abc_at_b = (init None)\<lparr> stack := [entryA, entryB, entryC], index := 1, lastIndex := 2,
     openEditorRequests := [\<lparr> target = Editor docB, options_selection = None \<rparr>] \<rparr>"
  by code_simp

text \<open>
  C2. When \<^verbatim>\<open>addOrReplaceInStack\<close> runs without \<^verbatim>\<open>forceReplace\<close> and the index is on
  an entry, the entry is replaced in place exactly when the incoming document matches the
  entry's document and either the two selections have the same start line (two absent
  selections count as the same) or the entry is less than 300ms old. The replacing entry
  carries the new timestamp. Otherwise a new entry is pushed after the index (and the oldest
  entry evicted beyond 20 entries).
\<close>

theorem C2_coalesce:
  assumes cur: "js_get (stack s) (index s) = Some cur"
  shows "addOrReplaceInStack now1 now2 inp sel False s =
     (let entry = \<lparr> input = preferResourceInput inp, selection = sel, timestamp = now2 \<rparr>;
          kept = take (nat (index s) + 1) (stack s)
      in if matches (ArgInput (Editor inp)) (input cur) \<and>
            ((selection cur = None \<and> sel = None) \<or>
             (\<exists>a b. selection cur = Some a \<and> sel = Some b \<and> startLineNumber a = startLineNumber b) \<or>
             now1 - timestamp cur < 300)
         then s\<lparr> stack := kept[nat (index s) := entry] \<rparr>
         else if length kept + 1 > 20
              then s\<lparr> stack := tl (kept @ [entry]), lastIndex := index s + 1, index := index s \<rparr>
              else s\<lparr> stack := kept @ [entry], lastIndex := index s, index := index s + 1 \<rparr>)"
proof -
  let ?entry = "\<lparr> input = preferResourceInput inp, selection = sel, timestamp = now2 \<rparr>"
  let ?kept = "take (nat (index s) + 1) (stack s)"
  let ?d = "matches (ArgInput (Editor inp)) (input cur) \<and>
            ((selection cur = None \<and> sel = None) \<or>
             (\<exists>a b. selection cur = Some a \<and> sel = Some b \<and> startLineNumber a = startLineNumber b) \<or>
             now1 - timestamp cur < 300)"
  let ?c = "False \<or> matches (ArgInput (Editor inp)) (input cur) \<and>
            (sameSelection (selection cur) sel \<or> now1 - timestamp cur < MERGE_EVENT_CHANGES_THRESHOLD)"
  from cur have r: "0 \<le> index s" "index s < int (length (stack s))"
    by (auto dest: js_get_Some)
  then have k: "nat (index s + 1) = nat (index s) + 1" "nat (index s) < length (stack s)"
    by auto
  have eq: "?c \<longleftrightarrow> ?d"
    by (simp add: sameSelection_iff MERGE_EVENT_CHANGES_THRESHOLD_def)
  show ?thesis
  proof (cases ?d)
    case True
    with eq have c: ?c by blast
    have "addOrReplaceInStack now1 now2 inp sel False s =
          s\<lparr> stack := take (nat (index s)) (stack s) @ [?entry] \<rparr>"
      by (rule addOrReplaceInStack_replaces [OF cur c])
    also have "take (nat (index s)) (stack s) @ [?entry] = ?kept[nat (index s) := ?entry]"
      using k(2) by (simp add: take_update_last)
    finally show ?thesis
      by (simp only: Let_def if_P [OF True])
  next
    case False
    with eq have c: "\<not> ?c" by blast
    have "addOrReplaceInStack now1 now2 inp sel False s =
          (if length (?kept @ [?entry]) > MAX_STACK_ITEMS
           then s\<lparr> stack := tl (?kept @ [?entry]), lastIndex := index s + 1, index := index s \<rparr>
           else s\<lparr> stack := ?kept @ [?entry], lastIndex := index s, index := index s + 1 \<rparr>)"
      using addOrReplaceInStack_pushes [OF cur c, of now2] by (simp only: Let_def k(1))
    also have "length (?kept @ [?entry]) > MAX_STACK_ITEMS \<longleftrightarrow> length ?kept + 1 > 20"
      by (simp add: MAX_STACK_ITEMS_def)
    finally show ?thesis
      by (simp only: Let_def if_not_P [OF False])
  qed
qed

theorem C2_coalesce_witness:
  "js_get (stack abc_at_b) (index abc_at_b) = Some entryB \<and>
   addOrReplaceInStack 5000 5001 docB None False abc_at_b =
     abc_at_b\<lparr> stack := [entryA, \<lparr> input = Editor docB, selection = None, timestamp = 5001 \<rparr>] \<rparr>"
proof -
  have h: "js_get (stack abc_at_b) (index abc_at_b) = Some entryB"
    by code_simp
  have m: "matches (ArgInput (Editor docB)) (input entryB)" "selection entryB = None"
    by code_simp+
  have p: "preferResourceInput docB = Editor docB"
    by code_simp
  have k: "(take (nat (index abc_at_b) + 1) (stack abc_at_b))
             [nat (index abc_at_b) := \<lparr> input = Editor docB, selection = None, timestamp = 5001 \<rparr>]
           = [entryA, \<lparr> input = Editor docB, selection = None, timestamp = 5001 \<rparr>]"
    by code_simp
  show ?thesis
    using C2_coalesce [OF h, of 5000 5001 docB None] h
    by (simp only: Let_def m p k simp_thms if_True)
qed

text \<open>
  C3. A push (an \<^verbatim>\<open>add\<close> that does not replace) from an index that is not the last
  position of a stack within its capacity drops every entry after the index, inserts the
  new entry right after the index and advances the index by one. From [A, B, C] with the
  index on B, pushing D leaves [A, B, D] with the index on D.
\<close>

theorem C3_push_truncates:
  assumes idle: "\<not> navigatingInStack s"
    and cur: "js_get (stack s) (index s) = Some cur"
    and notlast: "index s + 1 < int (length (stack s))"
    and cap: "length (stack s) \<le> 20"
    and dec: "\<not> (matches (ArgInput (Editor inp)) (input cur) \<and>
               (sameSelection (selection cur) sel \<or> now1 - timestamp cur < 300))"
  shows "add now1 now2 inp sel s =
         s\<lparr> stack := take (nat (index s) + 1) (stack s) @
                [\<lparr> input = preferResourceInput inp, selection = sel, timestamp = now2 \<rparr>],
            lastIndex := index s,
            index := index s + 1 \<rparr>"
proof -
  from cur have r: "0 \<le> index s" "index s < int (length (stack s))"
    by (auto dest: js_get_Some)
  then have k: "nat (index s + 1) = nat (index s) + 1"
    by auto
  from dec have dec': "\<not> (False \<or> matches (ArgInput (Editor inp)) (input cur) \<and>
      (sameSelection (selection cur) sel \<or> now1 - timestamp cur < MERGE_EVENT_CHANGES_THRESHOLD))"
    by (simp add: MERGE_EVENT_CHANGES_THRESHOLD_def)
  have small: "\<not> length (take (nat (index s + 1)) (stack s) @
      [\<lparr> input = preferResourceInput inp, selection = sel, timestamp = now2 \<rparr>]) > MAX_STACK_ITEMS"
    using r notlast cap by (simp add: MAX_STACK_ITEMS_def)
  show ?thesis
    using idle small
    by (simp add: add_def addOrReplaceInStack_pushes [OF cur dec'] Let_def k)
qed

theorem C3_push_truncates_witness:
  "stack abc_at_b = [entryA, entryB, entryC] \<and> index abc_at_b = 1 \<and>
   stack (add 5000 5000 docD None abc_at_b) =
     [entryA, entryB, \<lparr> input = Editor docD, selection = None, timestamp = 5000 \<rparr>] \<and>
   index (add 5000 5000 docD None abc_at_b) = 2"
proof -
  have idle: "\<not> navigatingInStack abc_at_b"
    by code_simp
  have cur: "js_get (stack abc_at_b) (index abc_at_b) = Some entryB"
    by code_simp
  have notlast: "index abc_at_b + 1 < int (length (stack abc_at_b))"
    by code_simp
  have cap: "length (stack abc_at_b) \<le> 20"
    by code_simp
  have dec: "\<not> (matches (ArgInput (Editor docD)) (input entryB) \<and>
      (sameSelection (selection entryB) None \<or> 5000 - timestamp entryB < 300))"
    by code_simp
  have p: "preferResourceInput docD = Editor docD"
    by code_simp
  show ?thesis
    using C3_push_truncates [OF idle cur notlast cap dec, of 5000]
    by (simp add: abc_at_b_eval p)
qed

text \<open>
  C10. When \<^verbatim>\<open>addOrReplaceInStack\<close> replaces (forced, or by coalescing) while the index
  is not the last position, the entries after the index are removed as well: the stack ends
  with the replaced entry.
\<close>

theorem C10_replace_discards_forward:
  assumes cur: "js_get (stack s) (index s) = Some cur"
    and notlast: "index s + 1 < int (length (stack s))"
    and dec: "forceReplace \<or> matches (ArgInput (Editor inp)) (input cur) \<and>
               (sameSelection (selection cur) sel \<or> now1 - timestamp cur < 300)"
  shows "stack (addOrReplaceInStack now1 now2 inp sel forceReplace s) =
           take (nat (index s)) (stack s) @
             [\<lparr> input = preferResourceInput inp, selection = sel, timestamp = now2 \<rparr>] \<and>
         index (addOrReplaceInStack now1 now2 inp sel forceReplace s) = index s \<and>
         int (length (stack (addOrReplaceInStack now1 now2 inp sel forceReplace s))) = index s + 1 \<and>
         length (stack (addOrReplaceInStack now1 now2 inp sel forceReplace s)) < length (stack s)"
proof -
  from cur have r: "0 \<le> index s" "index s < int (length (stack s))"
    by (auto dest: js_get_Some)
  from dec have dec': "forceReplace \<or> matches (ArgInput (Editor inp)) (input cur) \<and>
      (sameSelection (selection cur) sel \<or> now1 - timestamp cur < MERGE_EVENT_CHANGES_THRESHOLD)"
    by (simp add: MERGE_EVENT_CHANGES_THRESHOLD_def)
  show ?thesis
    unfolding addOrReplaceInStack_replaces [OF cur dec']
    using r notlast by auto
qed

theorem C10_replace_discards_forward_witness:
  "stack abc_at_b = [entryA, entryB, entryC] \<and> index abc_at_b = 1 \<and>
   stack (addOrReplaceInStack 5000 5000 docB None False abc_at_b) =
     [entryA, \<lparr> input = Editor docB, selection = None, timestamp = 5000 \<rparr>] \<and>
   index (addOrReplaceInStack 5000 5000 docB None False abc_at_b) = 1"
proof -
  have cur: "js_get (stack abc_at_b) (index abc_at_b) = Some entryB"
    by code_simp
  have notlast: "index abc_at_b + 1 < int (length (stack abc_at_b))"
    by code_simp
  have dec: "False \<or> matches (ArgInput (Editor docB)) (input entryB) \<and>
      (sameSelection (selection entryB) None \<or> 5000 - timestamp entryB < 300)"
    by code_simp
  have p: "preferResourceInput docB = Editor docB"
    by code_simp
  show ?thesis
    using C10_replace_discards_forward [OF cur notlast dec, of 5000]
    by (simp add: abc_at_b_eval p)
qed

section \<open>The cursor of the navigation stack\<close>

text \<open>
  C1. The cursor invariant (\<open>0 \<le> index < stack.length\<close> for a non-empty stack) does not
  survive every sequence of public operations. After 21 calls of \<^verbatim>\<open>add\<close> with 21
  different documents the oldest entry has been evicted: the stack holds 20 entries, the
  index is 19, and \<^verbatim>\<open>setIndex\<close> has recorded 20 as the last index. \<^verbatim>\<open>last()\<close> then
  moves the index to 20, one past the end of the stack, and \<^verbatim>\<open>navigate\<close> raises a
  \<^verbatim>\<open>TypeError\<close> on the entry it cannot read.
\<close>

theorem C1_last_after_eviction:
  "index (visits 21) = 19 \<and> lastIndex (visits 21) = 20 \<and> length (stack (visits 21)) = 20 \<and>
   fst (last' (visits 21)) = Some TypeError \<and>
   index (snd (last' (visits 21))) = 20 \<and>
   length (stack (snd (last' (visits 21)))) = 20"
  by code_simp

text \<open>
  The other operations keep the cursor invariant: \<^verbatim>\<open>add\<close> and \<^verbatim>\<open>replace\<close> (both
  are \<^verbatim>\<open>addOrReplaceInStack\<close>), \<^verbatim>\<open>back\<close>, \<^verbatim>\<open>forward\<close> and the removal from
  the stack. Only \<^verbatim>\<open>last\<close> moves the index to a position recorded earlier.
\<close>

lemma cursor_ok_addOrReplaceInStack:
  assumes "cursor_ok s" and "length (stack s) \<le> 20"
  shows "cursor_ok (addOrReplaceInStack now1 now2 inp sel forceReplace s) \<and>
         length (stack (addOrReplaceInStack now1 now2 inp sel forceReplace s)) \<le> 20"
  using addOrReplaceInStack_top [OF assms, of now1 now2 inp sel forceReplace]
  by (auto simp: cursor_ok_def dest!: js_get_Some)

lemma cursor_ok_removeFromStack: "cursor_ok (removeFromStack arg1 s)"
  by (auto simp: cursor_ok_def removeFromStack_def Let_def)

lemma navigate_index: "index (snd (navigate a s)) = index s \<and> stack (snd (navigate a s)) = stack s"
  by (simp add: navigate_def split: option.splits)

lemma cursor_ok_navigate: "cursor_ok (snd (navigate a s)) = cursor_ok s"
  by (simp add: cursor_ok_def navigate_index)

lemma cursor_ok_setIndex:
  "0 \<le> i \<Longrightarrow> i < int (length (stack s)) \<Longrightarrow> cursor_ok (setIndex i s)"
  by (auto simp: cursor_ok_def setIndex_def)

lemma cursor_ok_backLoop:
  "cursor_ok s \<Longrightarrow> int k \<le> index s \<Longrightarrow> cursor_ok (snd (backLoop s c k))"
proof (induction k)
  case 0
  then show ?case by simp
next
  case (Suc k)
  then have "int k < int (length (stack s))" "stack s \<noteq> []"
    by (auto simp: cursor_ok_def split: if_splits)
  with Suc show ?case
    by (auto simp: cursor_ok_navigate cursor_ok_setIndex split: option.splits)
qed

lemma cursor_ok_forwardLoop:
  "cursor_ok s \<Longrightarrow> - 1 \<le> i \<Longrightarrow> cursor_ok (snd (forwardLoop s c i))"
proof (induction s c i rule: forwardLoop.induct)
  case (1 s c i)
  show ?case
  proof (cases "int (length (stack s)) > i + 1")
    case True
    with 1 show ?thesis
      by (subst forwardLoop.simps)
        (auto simp: cursor_ok_navigate cursor_ok_setIndex split: option.splits)
  next
    case False
    with 1 show ?thesis
      by (subst forwardLoop.simps) simp
  qed
qed

lemma cursor_ok_back: "cursor_ok s \<Longrightarrow> cursor_ok (snd (back' a s))"
proof (cases "index s > 0")
  case False
  then show "cursor_ok s \<Longrightarrow> ?thesis"
    by (simp add: back'_def)
next
  case True
  assume ok: "cursor_ok s"
  with True have r: "0 \<le> index s - 1" "index s - 1 < int (length (stack s))"
    by (auto simp: cursor_ok_def split: if_splits)
  have "int (nat (index s)) \<le> index s"
    using True by simp
  from cursor_ok_backLoop [OF ok this] cursor_ok_setIndex [OF r] True
  show ?thesis
    by (simp add: back'_def doBackInEditors_def doBackAcrossEditors_def cursor_ok_navigate)
qed

lemma cursor_ok_forward: "cursor_ok s \<Longrightarrow> cursor_ok (snd (forward a s))"
proof (cases "int (length (stack s)) > index s + 1")
  case False
  then show "cursor_ok s \<Longrightarrow> ?thesis"
    by (simp add: forward_def)
next
  case True
  assume ok: "cursor_ok s"
  with True have r: "0 \<le> index s + 1" "- 1 \<le> index s"
    by (auto simp: cursor_ok_def split: if_splits)
  from cursor_ok_forwardLoop [OF ok r(2)] cursor_ok_setIndex [OF r(1) True] True
  show ?thesis
    by (simp add: forward_def doForwardInEditors_def doForwardAcrossEditors_def cursor_ok_navigate)
qed

section \<open>Going back and forward\<close>

text \<open>
  C6, as the code has it. From a state whose index is positive and on an entry of the
  stack (\<open>0 < index < stack.length\<close>), \<^verbatim>\<open>back()\<close> followed by \<^verbatim>\<open>forward()\<close>
  (both within editors, the default) returns the index to its value and leaves the stack
  as it was; the open request \<^verbatim>\<open>forward()\<close> sends names the original current
  entry's document and selection.
\<close>

theorem C6_back_then_forward:
  assumes pos: "0 < index s" and inr: "index s < int (length (stack s))"
  shows "fst (back' False s) = None \<and>
         index (snd (back' False s)) = index s - 1 \<and>
         fst (forward False (snd (back' False s))) = None \<and>
         index (snd (forward False (snd (back' False s)))) = index s \<and>
         stack (snd (forward False (snd (back' False s)))) = stack s \<and>
         last (openEditorRequests (snd (forward False (snd (back' False s))))) =
           \<lparr> target = input (stack s ! nat (index s)),
              options_selection = selection (stack s ! nat (index s)) \<rparr>"
proof -
  let ?s1 = "s\<lparr> lastIndex := index s, index := index s - 1, navigatingInStack := True,
        openEditorRequests := openEditorRequests s @
          [\<lparr> target = input (stack s ! nat (index s - 1)),
             options_selection = selection (stack s ! nat (index s - 1)) \<rparr>] \<rparr>"
  have b: "back' False s = (None, ?s1)"
    using pos inr
    by (simp add: back'_def doBackInEditors_def navigate_def setIndex_def js_get_def)
  have f: "forward False ?s1 =
      (None, ?s1\<lparr> lastIndex := index s - 1, index := index s, navigatingInStack := True,
         openEditorRequests := openEditorRequests ?s1 @
           [\<lparr> target = input (stack s ! nat (index s)),
              options_selection = selection (stack s ! nat (index s)) \<rparr>] \<rparr>)"
    using pos inr
    by (simp add: forward_def doForwardInEditors_def navigate_def setIndex_def js_get_def)
  show ?thesis
    unfolding b snd_conv fst_conv f by simp
qed

theorem C6_back_then_forward_witness:
  "index abc = 2 \<and> length (stack abc) = 3 \<and>
   index (snd (back' False abc)) = 1 \<and>
   index (snd (forward False (snd (back' False abc)))) = 2 \<and>
   last (openEditorRequests (snd (forward False (snd (back' False abc))))) =
     \<lparr> target = Editor docC, options_selection = None \<rparr>"
proof -
  have pos: "0 < index abc" and inr: "index abc < int (length (stack abc))"
    by code_simp+
  have v: "index abc = 2" "length (stack abc) = 3"
    "input (stack abc ! 2) = Editor docC"
    "selection (stack abc ! 2) = None"
    by code_simp+
  show ?thesis
    using C6_back_then_forward [OF pos inr] by (simp add: v)
qed

text \<open>
  A positive index alone is not enough. In the state \<^verbatim>\<open>last()\<close> leaves after 21
  visits the index is 20 on a stack of 20 entries: \<^verbatim>\<open>back()\<close> moves it to 19, and
  \<^verbatim>\<open>forward()\<close>, at the last position, does nothing.
\<close>

theorem C6_back_then_forward_counterexample:
  "0 < index past_end \<and> index past_end = 20 \<and> length (stack past_end) = 20 \<and>
   index (snd (back' False past_end)) = 19 \<and>
   index (snd (forward False (snd (back' False past_end)))) = 19"
  by code_simp

section \<open>Removing a document that is not there\<close>

lemma filter_none_matching: "\<forall>e\<in>set xs. \<not> P e \<Longrightarrow> filter (\<lambda>e. \<not> P e) xs = xs"
  by (induction xs) auto

text \<open>
  C5, as the code has it. \<^verbatim>\<open>remove\<close> with a reference that matches no stack entry, no
  history entry and no closed file raises nothing once the history has loaded, and leaves
  the three lists as they are; but \<^verbatim>\<open>removeFromStack\<close> always resets the index to the
  last position and the last index to \<open>-1\<close>, and a resource descriptor is still passed to
  the host's list of recently opened files.
\<close>

theorem C5_remove_absent:
  assumes ld: "ensureHistoryLoaded h s = Inr s1"
    and hist: "history s1 = Some hs"
    and nost: "\<forall>e\<in>set (stack s). \<not> matches arg1 (input e)"
    and nohi: "\<forall>e\<in>set hs. \<not> matches arg1 e"
    and nocl: "\<forall>e\<in>set (recentlyClosedFiles s). \<not> matchesFile (resource e) arg1"
  shows "remove h arg1 s =
         Inr (removeFromRecentlyOpened arg1
                (s1\<lparr> index := int (length (stack s)) - 1, lastIndex := - 1 \<rparr>))"
proof -
  have same: "stack s1 = stack s" "recentlyClosedFiles s1 = recentlyClosedFiles s"
    using ld by (auto simp: ensureHistoryLoaded_def loadHistory_def
        split: if_splits sum.splits json.splits option.splits)
  have again: "ensureHistoryLoaded h s1 = Inr s1" "loaded s1"
    using ld by (auto simp: ensureHistoryLoaded_def split: if_splits sum.splits)
  have rh: "removeFromHistory h arg1 s = Inr s1"
    using hist by (simp add: removeFromHistory_def ld filter_none_matching [OF nohi])
  from nost have nost1: "filter (\<lambda>e. \<not> matches arg1 (input e)) (stack s1) = stack s1"
    unfolding same(1) [symmetric] by (rule filter_none_matching)
  from nocl have nocl1:
    "filter (\<lambda>e. \<not> matchesFile (resource e) arg1) (recentlyClosedFiles s1) = recentlyClosedFiles s1"
    unfolding same(2) [symmetric] by (rule filter_none_matching)
  have "removeFromStack arg1 s1 = s1\<lparr> index := int (length (stack s1)) - 1, lastIndex := - 1 \<rparr>"
    by (simp add: removeFromStack_def Let_def nost1)
  then have rs: "removeFromStack arg1 s1 =
      s1\<lparr> index := int (length (stack s)) - 1, lastIndex := - 1 \<rparr>"
    by (simp only: same)
  have rc: "removeFromRecentlyClosedFiles arg1 (s1\<lparr> index := i, lastIndex := j \<rparr>) =
            s1\<lparr> index := i, lastIndex := j \<rparr>" for i j
    by (simp add: removeFromRecentlyClosedFiles_def nocl1)
  show ?thesis
    by (simp add: remove_def rh rs rc)
qed

theorem C5_remove_absent_witness:
  "ensureHistoryLoaded demoHost abc_at_b = Inr abc_at_b_loaded \<and>
   remove demoHost (ArgInput (Resource ''file:///x'')) abc_at_b =
     Inr (abc_at_b_loaded\<lparr> index := 2, lastIndex := - 1,
            removedFromRecentlyOpened := [''file:///x''] \<rparr>)"
proof -
  have ld: "ensureHistoryLoaded demoHost abc_at_b = Inr abc_at_b_loaded"
    by code_simp
  have hist: "history abc_at_b_loaded = Some []"
    by code_simp
  have nost: "\<forall>e\<in>set (stack abc_at_b). \<not> matches (ArgInput (Resource ''file:///x'')) (input e)"
    by code_simp
  have nohi: "\<forall>e\<in>set []. \<not> matches (ArgInput (Resource ''file:///x'')) e"
    by simp
  have nocl: "\<forall>e\<in>set (recentlyClosedFiles abc_at_b).
      \<not> matchesFile (resource e) (ArgInput (Resource ''file:///x''))"
    by code_simp
  have v: "removeFromRecentlyOpened (ArgInput (Resource ''file:///x''))
             (abc_at_b_loaded\<lparr> index := int (length (stack abc_at_b)) - 1, lastIndex := - 1 \<rparr>) =
           abc_at_b_loaded\<lparr> index := 2, lastIndex := - 1,
             removedFromRecentlyOpened := [''file:///x''] \<rparr>"
    by code_simp
  show ?thesis
    using C5_remove_absent [OF ld hist nost nohi nocl] ld by (simp only: v simp_thms)
qed

text \<open>
  With the stack [A, B, C], the index on B and the last index on C, removing a document D
  that is nowhere moves the index to C and forgets the last index.
\<close>

theorem C5_remove_absent_counterexample:
  "index abc_at_b_loaded = 1 \<and> lastIndex abc_at_b_loaded = 2 \<and>
   list_all (\<lambda>e. \<not> matches (ArgInput (Editor docD)) (input e)) (stack abc_at_b_loaded) \<and>
   history abc_at_b_loaded = Some [] \<and> recentlyClosedFiles abc_at_b_loaded = [] \<and>
   remove demoHost (ArgInput (Editor docD)) abc_at_b_loaded =
     Inr (abc_at_b_loaded\<lparr> index := 2, lastIndex := - 1 \<rparr>)"
  by code_simp

section \<open>Saving and loading the history\<close>

text \<open>
  C8, as the code has it. \<^verbatim>\<open>loadHistory\<close> calls \<^verbatim>\<open>JSON.parse\<close> unguarded: a stored
  string that is not empty and not JSON makes it raise the \<^verbatim>\<open>SyntaxError\<close>, which leaves
  \<^verbatim>\<open>ensureHistoryLoaded\<close> and \<^verbatim>\<open>getHistory\<close>. The empty string, which is not
  JSON either, is never parsed and is read as the empty history.
\<close>

theorem C8_malformed_raises:
  "(storage s = Some raw \<and> raw \<noteq> [] \<and> JSON_parse h raw = None \<and> \<not> loaded s \<longrightarrow>
      loadHistory h s = Inl SyntaxError \<and>
      ensureHistoryLoaded h s = Inl SyntaxError \<and>
      getHistory h s = Inl SyntaxError) \<and>
   (storage s = Some [] \<and> \<not> loaded s \<longrightarrow>
      getHistory h s = Inr ([], s\<lparr> history := Some [], loaded := True \<rparr>))"
  by (simp add: loadHistory_def ensureHistoryLoaded_def getHistory_def)

theorem C8_malformed_raises_witness:
  "storage (init (Some ''[1,'')) = Some ''[1,'' \<and> JSON_parse demoHost ''[1,'' = None \<and>
   \<not> loaded (init (Some ''[1,'')) \<and>
   ensureHistoryLoaded demoHost (init (Some ''[1,'')) = Inl SyntaxError \<and>
   getHistory demoHost (init (Some [])) =
     Inr ([], (init (Some []))\<lparr> history := Some [], loaded := True \<rparr>)"
proof -
  have st: "storage (init (Some ''[1,'')) = Some ''[1,''" and ne: "''[1,'' \<noteq> []"
    and bad: "JSON_parse demoHost ''[1,'' = None" and nl: "\<not> loaded (init (Some ''[1,''))"
    by code_simp+
  have st': "storage (init (Some [])) = Some []" and nl': "\<not> loaded (init (Some []))"
    by code_simp+
  show ?thesis
    using C8_malformed_raises [of "init (Some ''[1,'')" "''[1,''" demoHost]
      C8_malformed_raises [of "init (Some [])" "[]" demoHost] st ne bad nl st' nl'
    by simp
qed

text \<open>The stored text \<^verbatim>\<open>{oops\<close> is not JSON; reading the history raises.\<close>

theorem C8_malformed_counterexample:
  "JSON_parse demoHost ''{oops'' = None \<and>
   getHistory demoHost (init (Some ''{oops'')) = Inl SyntaxError"
  by code_simp

text \<open>An absent stored value is read as the empty history as well.\<close>

lemma getHistory_absent_or_empty:
  assumes "storage s = None \<or> storage s = Some []" and "\<not> loaded s"
  shows "getHistory h s = Inr ([], s\<lparr> history := Some [], loaded := True \<rparr>)"
  using assms
  by (auto simp: loadHistory_def ensureHistoryLoaded_def getHistory_def)

lemma loadHistory_entries_saved:
  assumes "\<forall>u\<in>set us. js_truthy (Some (URI_toJSON h u)) \<and> URI_revive h (URI_toJSON h u) = u"
  shows "loadHistory_entries h (map (\<lambda>u. JObj [(''resourceJSON'', URI_toJSON h u)]) us) =
         Inr (map (\<lambda>u. Some (Resource u)) us)"
  using assms by (induction us) (auto simp: loadHistory_entry_def)

lemma save_entries:
  "List.map_filter (\<lambda>i. case i of Editor e \<Rightarrow> None
                              | Resource r \<Rightarrow> Some (JObj [(''resourceJSON'', URI_toJSON h r)])) hs =
   map (\<lambda>u. JObj [(''resourceJSON'', URI_toJSON h u)]) (history_resources hs)"
  by (induction hs) (auto simp: history_resources_def split: Input.splits)

lemma map_filter_Some: "List.map_filter (\<lambda>x. x) (map (\<lambda>u. Some (f u)) us) = map f us"
  by (induction us) auto

lemma history_resources_only:
  "list_all (\<lambda>i. case i of Editor e \<Rightarrow> False | Resource r \<Rightarrow> True) hs \<Longrightarrow>
   map Resource (history_resources hs) = hs"
  by (induction hs) (auto simp: history_resources_def split: Input.splits)

text \<open>
  C7. Saving a history and loading it in a fresh service yields the resources of its
  resource descriptors, in their order, and none of its resolved inputs; a history of
  resource descriptors only comes back whole. The platform is assumed to parse the text it
  has written back to the same value, to write a text that is not empty, and to revive a
  URI from its serialisation, which is an object.
\<close>

theorem C7_save_load_roundtrip:
  assumes hist: "history s = Some hs"
    and rt: "JSON_parse h (JSON_stringify h
               (JArr (map (\<lambda>u. JObj [(''resourceJSON'', URI_toJSON h u)]) (history_resources hs)))) =
             Some (JArr (map (\<lambda>u. JObj [(''resourceJSON'', URI_toJSON h u)]) (history_resources hs)))"
    and ne: "JSON_stringify h
               (JArr (map (\<lambda>u. JObj [(''resourceJSON'', URI_toJSON h u)]) (history_resources hs))) \<noteq> []"
    and uri: "\<forall>u\<in>set (history_resources hs).
               js_truthy (Some (URI_toJSON h u)) \<and> URI_revive h (URI_toJSON h u) = u"
  shows "getHistory h (init (storage (save h s))) =
         Inr (map Resource (history_resources hs),
              (init (storage (save h s)))
                \<lparr> history := Some (map Resource (history_resources hs)), loaded := True \<rparr>) \<and>
         (list_all (\<lambda>i. case i of Editor e \<Rightarrow> False | Resource r \<Rightarrow> True) hs \<longrightarrow>
            map Resource (history_resources hs) = hs)"
proof -
  let ?js = "JArr (map (\<lambda>u. JObj [(''resourceJSON'', URI_toJSON h u)]) (history_resources hs))"
  have st: "storage (save h s) = Some (JSON_stringify h ?js)"
    by (simp add: save_def hist save_entries)
  have "loadHistory h (init (Some (JSON_stringify h ?js))) =
        Inr ((init (Some (JSON_stringify h ?js)))\<lparr> history := Some (map Resource (history_resources hs)) \<rparr>)"
    using ne rt
    by (simp add: loadHistory_def init_def loadHistory_entries_saved [OF uri] map_filter_Some)
  then show ?thesis
    by (simp add: getHistory_def ensureHistoryLoaded_def st init_def history_resources_only)
qed

theorem C7_save_load_roundtrip_witness:
  "history mixed_history = Some [Editor docA, Resource ''file:///a''] \<and>
   storage (save demoHost mixed_history) = Some sample_raw \<and>
   getHistory demoHost (init (storage (save demoHost mixed_history))) =
     Inr ([Resource ''file:///a''],
          (init (Some sample_raw))\<lparr> history := Some [Resource ''file:///a''], loaded := True \<rparr>)"
proof -
  have hist: "history mixed_history = Some [Editor docA, Resource ''file:///a'']"
    by code_simp
  have rt: "JSON_parse demoHost (JSON_stringify demoHost
               (JArr (map (\<lambda>u. JObj [(''resourceJSON'', URI_toJSON demoHost u)])
                  (history_resources [Editor docA, Resource ''file:///a''])))) =
             Some (JArr (map (\<lambda>u. JObj [(''resourceJSON'', URI_toJSON demoHost u)])
                  (history_resources [Editor docA, Resource ''file:///a''])))"
    by code_simp
  have ne: "JSON_stringify demoHost
               (JArr (map (\<lambda>u. JObj [(''resourceJSON'', URI_toJSON demoHost u)])
                  (history_resources [Editor docA, Resource ''file:///a'']))) \<noteq> []"
    by code_simp
  have uri: "\<forall>u\<in>set (history_resources [Editor docA, Resource ''file:///a'']).
               js_truthy (Some (URI_toJSON demoHost u)) \<and>
               URI_revive demoHost (URI_toJSON demoHost u) = u"
    by code_simp
  have v: "history_resources [Editor docA, Resource ''file:///a''] = [''file:///a'']"
    "storage (save demoHost mixed_history) = Some sample_raw"
    by code_simp+
  show ?thesis
    using C7_save_load_roundtrip [OF hist rt ne uri] hist by (simp add: v)
qed

section \<open>The recency history\<close>

lemma matches_preferred:
  "descriptor_preferred y \<Longrightarrow> matches (ArgInput (Editor inp)) y \<longleftrightarrow> y = preferResourceInput inp"
  by (cases y) (auto simp: descriptor_preferred_def preferResourceInput_def EditorInput_matches_def
      split: option.splits)

lemma matches_self: "descriptor_preferred x \<Longrightarrow> matches (ArgInput x) x"
  by (cases x) (auto simp: EditorInput_matches_def)

lemma matches_new:
  "descriptor_preferred y \<Longrightarrow> preferResourceInput inp \<noteq> y \<Longrightarrow>
   \<not> matches (ArgInput (preferResourceInput inp)) y \<and> \<not> matches (ArgInput y) (preferResourceInput inp)"
  by (cases y) (auto simp: descriptor_preferred_def preferResourceInput_def EditorInput_matches_def
      split: option.splits)

lemma no_duplicates_distinct: "list_all descriptor_preferred xs \<Longrightarrow> no_duplicates xs \<Longrightarrow> distinct xs"
  by (induction xs) (auto simp: list_all_iff dest: matches_self)

lemma no_duplicates_filter: "no_duplicates xs \<Longrightarrow> no_duplicates (filter P xs)"
  by (induction xs) (auto simp: list_all_iff)

lemma no_duplicates_butlast: "no_duplicates xs \<Longrightarrow> no_duplicates (butlast xs)"
  by (induction xs) (auto simp: list_all_iff dest: in_set_butlastD)

lemma filter_matches:
  "list_all descriptor_preferred hs \<Longrightarrow>
   filter (\<lambda>e. \<not> matches (ArgInput (Editor inp)) e) hs = removeAll (preferResourceInput inp) hs"
  by (induction hs) (auto simp: matches_preferred)

lemma history_inv_activate:
  assumes inv: "history_inv hs"
  shows "history_inv (preferResourceInput inp # removeAll (preferResourceInput inp) hs) \<or>
         length (preferResourceInput inp # removeAll (preferResourceInput inp) hs) > MAX_HISTORY_ITEMS"
    and "history_inv (butlast (preferResourceInput inp # removeAll (preferResourceInput inp) hs))"
proof -
  let ?n = "preferResourceInput inp"
  let ?l = "?n # removeAll ?n hs"
  from inv have nd: "no_duplicates hs" and le: "length hs \<le> MAX_HISTORY_ITEMS"
    and dp: "list_all descriptor_preferred hs"
    by (auto simp: history_inv_def)
  have dpn: "descriptor_preferred ?n"
    by (auto simp: descriptor_preferred_def preferResourceInput_def split: option.splits)
  have nd': "no_duplicates ?l"
    using nd dp no_duplicates_filter [of hs "\<lambda>y. ?n \<noteq> y"]
    by (auto simp: list_all_iff removeAll_filter_not_eq dest: matches_new)
  have dp': "list_all descriptor_preferred ?l"
    using dp dpn by (auto simp: list_all_iff)
  show "history_inv ?l \<or> length ?l > MAX_HISTORY_ITEMS"
    using nd' dp' by (auto simp: history_inv_def)
  have "length (removeAll ?n hs) \<le> length hs"
    by (simp add: removeAll_filter_not_eq)
  then have "length (removeAll ?n hs) \<le> MAX_HISTORY_ITEMS"
    using le by (rule order_trans)
  then have "length (butlast ?l) \<le> MAX_HISTORY_ITEMS"
    by simp
  moreover have "list_all descriptor_preferred (butlast ?l)"
    using dp' by (auto simp: list_all_iff dest: in_set_butlastD)
  ultimately show "history_inv (butlast ?l)"
    using no_duplicates_butlast [OF nd'] by (simp add: history_inv_def)
qed

lemma length_removeAll_present:
  "distinct hs \<Longrightarrow> x \<in> set hs \<Longrightarrow> Suc (length (removeAll x hs)) = length hs"
  by (induction hs) auto

text \<open>
  One recorded activation on a loaded history that satisfies the invariant: the invariant
  holds again, a document already present moves to the front and the length stays, a new
  document is put in front and the length grows by at most one.
\<close>

lemma activation_step:
  assumes inp: "editor_input editor = Some inp" and name: "getName inp \<noteq> []"
    and ld: "ensureHistoryLoaded h s = Inr s1" and hist: "history s1 = Some hs"
    and inv: "history_inv hs"
  shows "\<exists>hs'. handleEditorEventInHistory h (Some editor) s = Inr (s1\<lparr> history := Some hs' \<rparr>) \<and>
           history_inv hs' \<and>
           (list_ex (matches (ArgInput (Editor inp))) hs \<longrightarrow>
              length hs' = length hs \<and>
              hs' = preferResourceInput inp # filter (\<lambda>e. \<not> matches (ArgInput (Editor inp)) e) hs) \<and>
           (\<not> list_ex (matches (ArgInput (Editor inp))) hs \<longrightarrow>
              hd hs' = preferResourceInput inp \<and> length hs' \<le> length hs + 1)"
proof -
  let ?n = "preferResourceInput inp"
  let ?l = "?n # removeAll ?n hs"
  define hs' where "hs' = (if length ?l > MAX_HISTORY_ITEMS then butlast ?l else ?l)"
  from inv have nd: "no_duplicates hs" and le: "length hs \<le> MAX_HISTORY_ITEMS"
    and dp: "list_all descriptor_preferred hs"
    by (auto simp: history_inv_def)
  have fm: "filter (\<lambda>e. \<not> matches (ArgInput (Editor inp)) e) hs = removeAll ?n hs"
    by (rule filter_matches [OF dp])
  have again: "ensureHistoryLoaded h s1 = Inr s1"
    using ld by (auto simp: ensureHistoryLoaded_def split: if_splits sum.splits)
  have rh: "removeFromHistory h (ArgInput (Editor inp)) s1 =
      Inr (s1\<lparr> history := Some (removeAll ?n hs) \<rparr>)"
    by (simp add: removeFromHistory_def again hist fm)
  have run: "handleEditorEventInHistory h (Some editor) s = Inr (s1\<lparr> history := Some hs' \<rparr>)"
    using name by (simp add: handleEditorEventInHistory_def inp include'_def ld rh Let_def hs'_def)
  have inv': "history_inv hs'"
  proof (cases "length ?l > MAX_HISTORY_ITEMS")
    case True
    then have "hs' = butlast ?l"
      by (simp add: hs'_def)
    then show ?thesis
      using history_inv_activate(2) [OF inv, of inp] by simp
  next
    case False
    then have "hs' = ?l"
      by (simp add: hs'_def)
    then show ?thesis
      using history_inv_activate(1) [OF inv, of inp] False by simp
  qed
  have ex: "list_ex (matches (ArgInput (Editor inp))) hs \<longleftrightarrow> ?n \<in> set hs"
    using dp by (auto simp: list_ex_iff list_all_iff matches_preferred)
  have present: "length hs' = length hs \<and> hs' = ?n # removeAll ?n hs" if "?n \<in> set hs"
  proof -
    have "Suc (length (removeAll ?n hs)) = length hs"
      by (rule length_removeAll_present [OF no_duplicates_distinct [OF dp nd] that])
    then show ?thesis
      using le by (simp add: hs'_def)
  qed
  have absent: "hd hs' = ?n \<and> length hs' \<le> length hs + 1" if "?n \<notin> set hs"
  proof -
    have "removeAll ?n hs = hs"
      using that by simp
    then show ?thesis
      by (cases hs) (simp_all add: hs'_def MAX_HISTORY_ITEMS_def)
  qed
  have "handleEditorEventInHistory h (Some editor) s = Inr (s1\<lparr> history := Some hs' \<rparr>) \<and>
        history_inv hs' \<and>
        (list_ex (matches (ArgInput (Editor inp))) hs \<longrightarrow>
           length hs' = length hs \<and>
           hs' = ?n # filter (\<lambda>e. \<not> matches (ArgInput (Editor inp)) e) hs) \<and>
        (\<not> list_ex (matches (ArgInput (Editor inp))) hs \<longrightarrow>
           hd hs' = ?n \<and> length hs' \<le> length hs + 1)"
    unfolding ex fm using run inv' present absent by blast
  then show ?thesis
    by (rule exI)
qed

text \<open>
  The history a load leaves holds resource descriptors only, so its entries are of the
  preferred kind.
\<close>

lemma loadHistory_entry_resource:
  "loadHistory_entry h e = Inr (Some i) \<Longrightarrow> descriptor_preferred i"
  by (auto simp: loadHistory_entry_def descriptor_preferred_def Let_def
      split: json.splits option.splits if_splits)

lemma loadHistory_entries_resources:
  "loadHistory_entries h es = Inr xs \<Longrightarrow> list_all descriptor_preferred (List.map_filter (\<lambda>x. x) xs)"
proof (induction es arbitrary: xs)
  case Nil
  then show ?case by simp
next
  case (Cons e es)
  then show ?case
    by (auto split: sum.splits option.splits
        dest: loadHistory_entry_resource)
qed

lemma loadHistory_descriptor_preferred:
  assumes "loadHistory h s = Inr s'" and "history s' = Some hs"
  shows "list_all descriptor_preferred hs"
  using assms
  by (auto simp: loadHistory_def split: option.splits if_splits sum.splits json.splits
      dest: loadHistory_entries_resources)

text \<open>
  Every other assignment to the history filters it (removal, disposal of an input, a
  change of the exclusions, the resource descriptors a save keeps), and a filtered history
  has no more duplicates and is no longer.
\<close>

lemma history_inv_filter: "history_inv hs \<Longrightarrow> history_inv (filter P hs)"
  unfolding history_inv_def
  by (auto simp: list_all_iff intro: no_duplicates_filter le_trans [OF length_filter_le])

lemma history_resources_filter:
  "map Resource (history_resources hs) =
   filter (\<lambda>i. case i of Editor e \<Rightarrow> False | Resource r \<Rightarrow> True) hs"
  by (induction hs) (auto simp: history_resources_def split: Input.splits)

section \<open>The history over sequences of operations\<close>

text \<open>
  The navigation stack's operations and the events of the stack assign none of
  \<^verbatim>\<open>history\<close>, \<^verbatim>\<open>loaded\<close> and the stored value.
\<close>

lemma history_ok_frame:
  "history s' = history s \<and> loaded s' = loaded s \<and> storage s' = storage s \<Longrightarrow>
   history_ok st s \<Longrightarrow> history_ok st s'"
  by (simp add: history_ok_def)

lemma frame_addOrReplaceInStack:
  "history (addOrReplaceInStack n1 n2 i sel f s) = history s \<and>
   loaded (addOrReplaceInStack n1 n2 i sel f s) = loaded s \<and>
   storage (addOrReplaceInStack n1 n2 i sel f s) = storage s"
  by (simp add: addOrReplaceInStack_def setIndex_def Let_def)

lemma frame_add:
  "history (add n1 n2 i sel s) = history s \<and> loaded (add n1 n2 i sel s) = loaded s \<and>
   storage (add n1 n2 i sel s) = storage s"
  by (simp add: add_def frame_addOrReplaceInStack)

lemma frame_replace:
  "history (replace n1 n2 i sel s) = history s \<and> loaded (replace n1 n2 i sel s) = loaded s \<and>
   storage (replace n1 n2 i sel s) = storage s"
  by (simp add: replace_def frame_addOrReplaceInStack)

lemma frame_navigate:
  "history (snd (navigate a s)) = history s \<and> loaded (snd (navigate a s)) = loaded s \<and>
   storage (snd (navigate a s)) = storage s"
  by (simp add: navigate_def split: option.splits)

lemma frame_setIndex:
  "history (setIndex i s) = history s \<and> loaded (setIndex i s) = loaded s \<and>
   storage (setIndex i s) = storage s"
  by (simp add: setIndex_def)

lemma frame_backLoop:
  "history (snd (backLoop s c k)) = history s \<and> loaded (snd (backLoop s c k)) = loaded s \<and>
   storage (snd (backLoop s c k)) = storage s"
  by (induction k) (auto simp: frame_navigate frame_setIndex split: option.splits)

lemma frame_forwardLoop:
  "history (snd (forwardLoop s c i)) = history s \<and> loaded (snd (forwardLoop s c i)) = loaded s \<and>
   storage (snd (forwardLoop s c i)) = storage s"
proof (induction s c i rule: forwardLoop.induct)
  case (1 s c i)
  then show ?case
    by (subst (1 2 3) forwardLoop.simps)
      (auto simp: frame_navigate frame_setIndex split: option.splits)
qed

lemma frame_back:
  "history (snd (back' a s)) = history s \<and> loaded (snd (back' a s)) = loaded s \<and>
   storage (snd (back' a s)) = storage s"
  by (simp add: back'_def doBackInEditors_def doBackAcrossEditors_def frame_navigate
      frame_setIndex frame_backLoop)

lemma frame_forward:
  "history (snd (forward a s)) = history s \<and> loaded (snd (forward a s)) = loaded s \<and>
   storage (snd (forward a s)) = storage s"
  by (simp add: forward_def doForwardInEditors_def doForwardAcrossEditors_def frame_navigate
      frame_setIndex frame_forwardLoop)

lemma frame_last:
  "history (snd (last' s)) = history s \<and> loaded (snd (last' s)) = loaded s \<and>
   storage (snd (last' s)) = storage s"
  by (simp add: last'_def frame_back frame_navigate frame_setIndex)

lemma frame_removeFromStack:
  "history (removeFromStack a s) = history s \<and> loaded (removeFromStack a s) = loaded s \<and>
   storage (removeFromStack a s) = storage s"
  by (simp add: removeFromStack_def Let_def)

lemma frame_handleEditorEventInStack:
  "history (handleEditorEventInStack n1 n2 e ev s) = history s \<and>
   loaded (handleEditorEventInStack n1 n2 e ev s) = loaded s \<and>
   storage (handleEditorEventInStack n1 n2 e ev s) = storage s"
  by (auto simp: handleEditorEventInStack_def handleTextEditorEvent_def handleNonTextEditorEvent_def
      frame_add frame_replace Let_def split: option.splits)

text \<open>
  \<^verbatim>\<open>loadHistory\<close> assigns what is stored, as it reads it: it neither removes
  duplicates nor bounds the length. So the history of a service is as good as the stored
  history: every operation keeps \<open>history_ok\<close> when the stored history is without
  duplicates and within the capacity.
\<close>

lemma loadHistory_stored:
  assumes "loadHistory h s = Inr s'"
  shows "s' = s\<lparr> history := stored_history h (storage s) \<rparr> \<and> stored_history h (storage s) \<noteq> None"
  using assms
  by (auto simp: loadHistory_def stored_history_def init_def
      split: option.splits if_splits sum.splits json.splits)

lemma history_ok_init: "history_ok st (init st)"
  by (simp add: history_ok_def init_def)

lemma ensureHistoryLoaded_ok:
  assumes so: "stored_ok h st" and ok: "history_ok st s"
    and e: "ensureHistoryLoaded h s = Inr s1"
  shows "loaded s1 \<and> history_ok st s1 \<and> (\<exists>hs. history s1 = Some hs \<and> history_inv hs)"
proof (cases "loaded s")
  case True
  from True have "s\<lparr> loaded := True \<rparr> = s"
    by (cases s) simp
  with True e have "s1 = s"
    by (simp add: ensureHistoryLoaded_def)
  with True ok show ?thesis
    by (cases "history s") (simp_all add: history_ok_def)
next
  case False
  with ok have st: "storage s = st"
    by (simp add: history_ok_def)
  show ?thesis
  proof (cases "loadHistory h s")
    case (Inl err)
    with False e show ?thesis
      by (simp add: ensureHistoryLoaded_def)
  next
    case (Inr s')
    with False e have s1: "s1 = s'\<lparr> loaded := True \<rparr>"
      by (simp add: ensureHistoryLoaded_def)
    from loadHistory_stored [OF Inr] st obtain hs
      where s': "s' = s\<lparr> history := Some hs \<rparr>" and sh: "stored_history h st = Some hs"
      by (cases "stored_history h st") simp_all
    from s' have "history s' = Some hs"
      by simp
    from loadHistory_descriptor_preferred [OF Inr this] so sh have "history_inv hs"
      by (simp add: stored_ok_def history_inv_def)
    with s1 s' show ?thesis
      by (simp add: history_ok_def)
  qed
qed

lemma ensureHistoryLoaded_again:
  "ensureHistoryLoaded h s = Inr s1 \<Longrightarrow> ensureHistoryLoaded h s1 = Inr s1"
  by (auto simp: ensureHistoryLoaded_def split: if_splits sum.splits)

lemma history_ok_update:
  "loaded s \<Longrightarrow> history_inv hs \<Longrightarrow> history_ok st (s\<lparr> history := Some hs \<rparr>)"
  by (simp add: history_ok_def)

lemma removeFromHistory_ok:
  assumes so: "stored_ok h st" and ok: "history_ok st s"
    and r: "removeFromHistory h a s = Inr s'"
  shows "history_ok st s'"
proof (cases "ensureHistoryLoaded h s")
  case (Inl err)
  with r show ?thesis
    by (simp add: removeFromHistory_def)
next
  case (Inr s1)
  from ensureHistoryLoaded_ok [OF so ok Inr] obtain hs
    where l: "loaded s1" and hi: "history s1 = Some hs" and inv: "history_inv hs"
    by blast
  from r have "s' = s1\<lparr> history := Some (filter (\<lambda>e. \<not> matches a e) hs) \<rparr>"
    by (simp add: removeFromHistory_def Inr hi)
  with l inv show ?thesis
    by (simp add: history_ok_update history_inv_filter)
qed

lemma removeExcludedFromHistory_ok:
  assumes so: "stored_ok h st" and ok: "history_ok st s"
    and r: "removeExcludedFromHistory h s = Inr s'"
  shows "history_ok st s'"
proof (cases "ensureHistoryLoaded h s")
  case (Inl err)
  with r show ?thesis
    by (simp add: removeExcludedFromHistory_def)
next
  case (Inr s1)
  from ensureHistoryLoaded_ok [OF so ok Inr] obtain hs
    where l: "loaded s1" and hi: "history s1 = Some hs" and inv: "history_inv hs"
    by blast
  from r have "s' = s1\<lparr> history := Some (filter (include' h) hs) \<rparr>"
    by (simp add: removeExcludedFromHistory_def Inr hi)
  with l inv show ?thesis
    by (simp add: history_ok_update history_inv_filter)
qed

lemma clear_ok:
  assumes so: "stored_ok h st" and ok: "history_ok st s" and r: "clear h s = Inr s'"
  shows "history_ok st s'"
proof (cases "ensureHistoryLoaded h s")
  case (Inl err)
  with r show ?thesis
    by (simp add: clear_def)
next
  case (Inr s1)
  from ensureHistoryLoaded_ok [OF so ok Inr] have "loaded s1"
    by blast
  moreover from r have "s' = s1\<lparr> index := - 1, lastIndex := - 1, stack := [], history := Some [],
                  recentlyClosedFiles := [] \<rparr>"
    by (simp add: clear_def Inr)
  ultimately show ?thesis
    by (simp add: history_ok_def history_inv_def)
qed

lemma getHistory_ok:
  assumes so: "stored_ok h st" and ok: "history_ok st s" and r: "getHistory h s = Inr (hs, s')"
  shows "history_ok st s'"
proof (cases "ensureHistoryLoaded h s")
  case (Inl err)
  with r show ?thesis
    by (simp add: getHistory_def)
next
  case (Inr s1)
  from ensureHistoryLoaded_ok [OF so ok Inr] obtain hs1
    where ok1: "history_ok st s1" and hi: "history s1 = Some hs1"
    by blast
  from r have "s' = s1"
    by (simp add: getHistory_def Inr hi)
  with ok1 show ?thesis
    by simp
qed

lemma save_ok: "history_ok st s \<Longrightarrow> history_ok st (save h s)"
  by (cases "history s"; cases "loaded s") (simp_all add: history_ok_def save_def Let_def)

lemma handleEditorEventInHistory_recorded:
  assumes inp: "editor_input ed = Some inp" and name: "getName inp \<noteq> []"
    and r: "handleEditorEventInHistory h (Some ed) s = Inr s'"
  shows "\<exists>s1. ensureHistoryLoaded h s = Inr s1"
proof (cases "ensureHistoryLoaded h s")
  case (Inl err)
  with r inp name show ?thesis
    by (simp add: handleEditorEventInHistory_def include'_def)
next
  case (Inr s1)
  then show ?thesis
    by simp
qed

lemma handleEditorEventInHistory_skipped:
  assumes "e = None \<or> (\<exists>ed. e = Some ed \<and> (editor_input ed = None \<or>
             (\<exists>inp. editor_input ed = Some inp \<and> getName inp = [])))"
  shows "handleEditorEventInHistory h e s = Inr s"
  using assms by (auto simp: handleEditorEventInHistory_def)

lemma handleEditorEventInHistory_ok:
  assumes so: "stored_ok h st" and ok: "history_ok st s"
    and r: "handleEditorEventInHistory h e s = Inr s'"
  shows "history_ok st s'"
proof (cases "\<exists>ed inp. e = Some ed \<and> editor_input ed = Some inp \<and> getName inp \<noteq> []")
  case False
  then have "e = None \<or> (\<exists>ed. e = Some ed \<and> (editor_input ed = None \<or>
             (\<exists>inp. editor_input ed = Some inp \<and> getName inp = [])))"
    by (cases e) auto
  from handleEditorEventInHistory_skipped [OF this, of h s] r ok show ?thesis
    by simp
next
  case True
  then obtain ed inp where ed: "e = Some ed" and inp: "editor_input ed = Some inp"
    and name: "getName inp \<noteq> []"
    by blast
  from handleEditorEventInHistory_recorded [OF inp name r [unfolded ed]]
  obtain s1 where ld: "ensureHistoryLoaded h s = Inr s1"
    by blast
  from ensureHistoryLoaded_ok [OF so ok ld] obtain hs
    where l1: "loaded s1" and hist: "history s1 = Some hs" and inv: "history_inv hs"
    by blast
  from activation_step [OF inp name ld hist inv] obtain hs'
    where e': "handleEditorEventInHistory h (Some ed) s = Inr (s1\<lparr> history := Some hs' \<rparr>)"
      and inv': "history_inv hs'"
    by blast
  from e' r ed have "s' = s1\<lparr> history := Some hs' \<rparr>"
    by simp
  with l1 inv' show ?thesis
    by (simp add: history_ok_update)
qed

lemma frame_removeFromRecentlyOpened:
  "history (removeFromRecentlyOpened a x) = history x \<and>
   loaded (removeFromRecentlyOpened a x) = loaded x \<and>
   storage (removeFromRecentlyOpened a x) = storage x"
proof (cases a)
  case (ArgInput i)
  then show ?thesis
    by (cases i) (simp_all add: removeFromRecentlyOpened_def)
next
  case (ArgEvent e)
  then show ?thesis
    by (simp add: removeFromRecentlyOpened_def)
qed

lemma frame_removeFromRecentlyClosedFiles:
  "history (removeFromRecentlyClosedFiles a x) = history x \<and>
   loaded (removeFromRecentlyClosedFiles a x) = loaded x \<and>
   storage (removeFromRecentlyClosedFiles a x) = storage x"
  by (simp add: removeFromRecentlyClosedFiles_def)

lemma remove_ok:
  assumes so: "stored_ok h st" and ok: "history_ok st s" and r: "remove h a s = Inr s'"
  shows "history_ok st s'"
proof (cases "removeFromHistory h a s")
  case (Inl err)
  with r show ?thesis
    by (simp add: remove_def)
next
  case (Inr s1)
  with r have "s' = removeFromRecentlyOpened a (removeFromRecentlyClosedFiles a (removeFromStack a s1))"
    by (simp add: remove_def)
  then have "history s' = history s1 \<and> loaded s' = loaded s1 \<and> storage s' = storage s1"
    by (simp only: frame_removeFromRecentlyOpened frame_removeFromRecentlyClosedFiles
        frame_removeFromStack simp_thms)
  then show ?thesis
    using removeFromHistory_ok [OF so ok Inr] by (rule history_ok_frame)
qed

lemma step_ok:
  assumes so: "stored_ok h st" and ok: "history_ok st s"
  shows "history_ok st (step h x s)"
proof (cases x)
  case (ActiveEditorChange n1 n2 e)
  show ?thesis
  proof (cases "handleEditorEventInHistory h e s")
    case (Inl err)
    with ok ActiveEditorChange show ?thesis
      by (simp add: settle_def handleActiveEditorChange_def)
  next
    case (Inr s')
    from handleEditorEventInHistory_ok [OF so ok Inr]
    have "history_ok st (handleEditorEventInStack n1 n2 e None s')"
      by (rule history_ok_frame [OF frame_handleEditorEventInStack])
    with ActiveEditorChange Inr show ?thesis
      by (simp add: settle_def handleActiveEditorChange_def)
  qed
next
  case (SelectionChange n1 n2 e ev)
  from ok have "history_ok st (handleEditorEventInStack n1 n2 e ev s)"
    by (rule history_ok_frame [OF frame_handleEditorEventInStack])
  with SelectionChange show ?thesis
    by (simp add: handleEditorSelectionChangeEvent_def)
next
  case (Add n1 n2 i sel)
  from ok have "history_ok st (add n1 n2 i sel s)"
    by (rule history_ok_frame [OF frame_add])
  with Add show ?thesis
    by simp
next
  case (Back a)
  from ok have "history_ok st (snd (back' a s))"
    by (rule history_ok_frame [OF frame_back])
  with Back show ?thesis
    by simp
next
  case (Forward a)
  from ok have "history_ok st (snd (forward a s))"
    by (rule history_ok_frame [OF frame_forward])
  with Forward show ?thesis
    by simp
next
  case Last
  from ok have "history_ok st (snd (last' s))"
    by (rule history_ok_frame [OF frame_last])
  with Last show ?thesis
    by simp
next
  case OpenEditorDone
  with ok show ?thesis
    by (simp add: history_ok_def openEditorDone_def)
next
  case (Remove a)
  with ok remove_ok [OF so ok] show ?thesis
    by (cases "remove h a s") (simp_all add: settle_def)
next
  case (HistoryInputDisposed i)
  with ok removeFromHistory_ok [OF so ok] show ?thesis
    by (cases "removeFromHistory h (ArgInput (Editor i)) s") (simp_all add: settle_def)
next
  case (StackInputDisposed i)
  from ok have "history_ok st (removeFromStack (ArgInput (Editor i)) s)"
    by (rule history_ok_frame [OF frame_removeFromStack])
  with StackInputDisposed show ?thesis
    by simp
next
  case ExcludesChange
  with ok removeExcludedFromHistory_ok [OF so ok] show ?thesis
    by (cases "removeExcludedFromHistory h s") (simp_all add: settle_def handleExcludesChange_def)
next
  case Clear
  with ok clear_ok [OF so ok] show ?thesis
    by (cases "clear h s") (simp_all add: settle_def)
next
  case GetHistory
  show ?thesis
  proof (cases "getHistory h s")
    case (Inl err)
    with ok GetHistory show ?thesis
      by simp
  next
    case (Inr p)
    obtain hs s' where p: "p = (hs, s')"
      by (cases p)
    from getHistory_ok [OF so ok Inr [unfolded p]] GetHistory Inr p show ?thesis
      by simp
  qed
next
  case Shutdown
  with ok show ?thesis
    by (simp add: save_ok)
qed

lemma run_ok: "stored_ok h st \<Longrightarrow> history_ok st s \<Longrightarrow> history_ok st (run h xs s)"
  by (induction xs arbitrary: s) (simp_all add: step_ok)

text \<open>
  C9, as the code has it. Take a service whose stored history, as \<^verbatim>\<open>loadHistory\<close>
  reads it, has no two entries with the same document identity and at most 200 entries
  (nothing stored is such a history). In every state it reaches, by any sequence of
  operations, a recorded activation leaves a history without two entries of the same
  identity and of at most 200 entries; a document already present moves to the front and
  the length stays, a new document is put in front and the length grows by at most one.
\<close>

theorem C9_recency_invariant:
  assumes so: "stored_ok h st"
    and reached: "s = run h ops (init st)"
    and inp: "editor_input editor = Some inp" and name: "getName inp \<noteq> []"
    and rec: "handleEditorEventInHistory h (Some editor) s = Inr s'"
  shows "\<exists>s1 hs hs'.
           ensureHistoryLoaded h s = Inr s1 \<and> history s1 = Some hs \<and>
           s' = s1\<lparr> history := Some hs' \<rparr> \<and>
           no_duplicates hs' \<and> length hs' \<le> 200 \<and>
           (list_ex (matches (ArgInput (Editor inp))) hs \<longrightarrow>
              length hs' = length hs \<and>
              hs' = preferResourceInput inp # filter (\<lambda>e. \<not> matches (ArgInput (Editor inp)) e) hs) \<and>
           (\<not> list_ex (matches (ArgInput (Editor inp))) hs \<longrightarrow>
              hd hs' = preferResourceInput inp \<and> length hs' \<le> length hs + 1)"
proof -
  have ok: "history_ok st s"
    unfolding reached by (rule run_ok [OF so history_ok_init])
  from handleEditorEventInHistory_recorded [OF inp name rec]
  obtain s1 where ld: "ensureHistoryLoaded h s = Inr s1"
    by blast
  from ensureHistoryLoaded_ok [OF so ok ld] obtain hs
    where hist: "history s1 = Some hs" and inv: "history_inv hs"
    by blast
  from activation_step [OF inp name ld hist inv] obtain hs'
    where e': "handleEditorEventInHistory h (Some editor) s = Inr (s1\<lparr> history := Some hs' \<rparr>)"
      and inv': "history_inv hs'"
      and present: "list_ex (matches (ArgInput (Editor inp))) hs \<longrightarrow>
              length hs' = length hs \<and>
              hs' = preferResourceInput inp # filter (\<lambda>e. \<not> matches (ArgInput (Editor inp)) e) hs"
      and absent: "\<not> list_ex (matches (ArgInput (Editor inp))) hs \<longrightarrow>
              hd hs' = preferResourceInput inp \<and> length hs' \<le> length hs + 1"
    by blast
  from e' rec have s': "s' = s1\<lparr> history := Some hs' \<rparr>"
    by simp
  from inv' have "no_duplicates hs'" "length hs' \<le> 200"
    by (simp_all add: history_inv_def MAX_HISTORY_ITEMS_def)
  with ld hist s' present absent show ?thesis
    by blast
qed

theorem C9_recency_invariant_witness:
  "stored_ok demoHost (Some sample_raw) \<and>
   history after_b = Some [Editor docB, Resource ''file:///a''] \<and>
   handleEditorEventInHistory demoHost (Some editorFileA) after_b =
     Inr (after_b\<lparr> history := Some [Resource ''file:///a'', Editor docB] \<rparr>) \<and>
   no_duplicates [Resource ''file:///a'', Editor docB]"
proof -
  let ?inp = "\<lparr> ident = 7, getName = ''a.ts'', toResource = Some ''file:///a'' \<rparr>"
  have so: "stored_ok demoHost (Some sample_raw)"
    by code_simp
  have reached: "after_b = run demoHost [ActiveEditorChange 0 0 (Some editorB)] (init (Some sample_raw))"
    by (simp add: after_b_def)
  have inp: "editor_input editorFileA = Some ?inp" and name: "getName ?inp \<noteq> []"
    by code_simp+
  have hist: "history after_b = Some [Editor docB, Resource ''file:///a'']"
    by code_simp
  have rec: "handleEditorEventInHistory demoHost (Some editorFileA) after_b =
     Inr (after_b\<lparr> history := Some [Resource ''file:///a'', Editor docB] \<rparr>)"
    by code_simp
  from C9_recency_invariant [OF so reached inp name rec]
  obtain s1 hs' where e: "after_b\<lparr> history := Some [Resource ''file:///a'', Editor docB] \<rparr> =
      s1\<lparr> history := Some hs' \<rparr>" and nd: "no_duplicates hs'"
    by blast
  from e have "history (after_b\<lparr> history := Some [Resource ''file:///a'', Editor docB] \<rparr>) =
      history (s1\<lparr> history := Some hs' \<rparr>)"
    by (rule arg_cong)
  then have "hs' = [Resource ''file:///a'', Editor docB]"
    by simp
  with nd so hist rec show ?thesis
    by simp
qed

text \<open>
  A stored history that names file a twice is loaded as it is: after the activation of
  document B the history holds B and file a twice.
\<close>

theorem C9_recency_invariant_counterexample:
  "stored_history dupHost (Some dup_raw) = Some [Resource ''file:///a'', Resource ''file:///a''] \<and>
   handleEditorEventInHistory dupHost (Some editorB) (init (Some dup_raw)) =
     Inr ((init (Some dup_raw))
            \<lparr> history := Some [Editor docB, Resource ''file:///a'', Resource ''file:///a''],
              loaded := True \<rparr>) \<and>
   \<not> no_duplicates [Editor docB, Resource ''file:///a'', Resource ''file:///a'']"
  by code_simp

section \<open>Successive selection changes\<close>

lemma textEditorSelection_new:
  "textEditorSelection (TextEditorState_new d (Some sel)) =
     Some \<lparr> startLineNumber = startLineNumber sel, startColumn = startColumn sel \<rparr>"
  by (simp add: TextEditorState_new_def)

lemma selection_event_as_addOrReplace:
  assumes idle: "\<not> navigatingInStack s"
  shows "\<exists>b. handleEditorSelectionChangeEvent now1 now2 (Some (textEditor d sel)) ev s =
           (addOrReplaceInStack now1 now2 d
              (Some \<lparr> startLineNumber = startLineNumber sel, startColumn = startColumn sel \<rparr>) b s)
             \<lparr> currentTextEditorState := Some (TextEditorState_new d (Some sel)) \<rparr>"
  using idle
  by (auto simp: handleEditorSelectionChangeEvent_def handleEditorEventInStack_def textEditor_def
      handleTextEditorEvent_def add_def replace_def textEditorSelection_new Let_def
      split: option.splits)

lemma selection_event_top:
  assumes idle: "\<not> navigatingInStack s" and ok: "cursor_ok s" and cap: "length (stack s) \<le> 20"
  shows "js_get (stack (handleEditorSelectionChangeEvent now1 now2 (Some (textEditor d sel)) ev s))
               (index (handleEditorSelectionChangeEvent now1 now2 (Some (textEditor d sel)) ev s)) =
           Some (stack_entry d sel now2) \<and>
         index (handleEditorSelectionChangeEvent now1 now2 (Some (textEditor d sel)) ev s) + 1 =
           int (length (stack (handleEditorSelectionChangeEvent now1 now2 (Some (textEditor d sel)) ev s))) \<and>
         length (stack (handleEditorSelectionChangeEvent now1 now2 (Some (textEditor d sel)) ev s)) \<le> 20 \<and>
         \<not> navigatingInStack (handleEditorSelectionChangeEvent now1 now2 (Some (textEditor d sel)) ev s) \<and>
         currentTextEditorState (handleEditorSelectionChangeEvent now1 now2 (Some (textEditor d sel)) ev s) =
           Some (TextEditorState_new d (Some sel))"
proof -
  from selection_event_as_addOrReplace [OF idle, of now1 now2 d sel ev]
  obtain b where e: "handleEditorSelectionChangeEvent now1 now2 (Some (textEditor d sel)) ev s =
           (addOrReplaceInStack now1 now2 d
              (Some \<lparr> startLineNumber = startLineNumber sel, startColumn = startColumn sel \<rparr>) b s)
             \<lparr> currentTextEditorState := Some (TextEditorState_new d (Some sel)) \<rparr>"
    by blast
  show ?thesis
    unfolding e using addOrReplaceInStack_top [OF ok cap, of now1 now2 d _ b] idle
    by (simp add: stack_entry_def)
qed

lemma justifies_same_document:
  assumes "case ev of None \<Rightarrow> True | Some e \<Rightarrow> source e \<noteq> ''api''"
  shows "justifiesNewPushState (TextEditorState_new d (Some a)) (TextEditorState_new d (Some b)) ev
         \<longleftrightarrow> \<not> \<bar>min (selectionStartLineNumber a) (positionLineNumber a) -
                 min (selectionStartLineNumber b) (positionLineNumber b)\<bar> < 10"
  using assms
  by (auto simp: justifiesNewPushState_def TextEditorState_new_def EditorInput_matches_def
      EDITOR_SELECTION_THRESHOLD_def Let_def split: option.splits)

text \<open>
  C4, as the code has it. Two successive selection changes on one document, outside a
  stack navigation, on a stack that satisfies the cursor invariant within its capacity, the
  second not of API origin. When the lines (the smaller of selection start line and position
  line) differ by less than 10 the top entry is replaced. When they differ by 10 or more the
  event goes through \<^verbatim>\<open>add\<close>, which still replaces the top entry when the start lines
  are equal or the entry is less than 300ms old; otherwise a new entry is pushed, and the
  count grows by one unless the stack is full, where the oldest entry is evicted.
\<close>

theorem C4_selection_changes:
  assumes idle: "\<not> navigatingInStack s" and ok: "cursor_ok s" and cap: "length (stack s) \<le> 20"
    and ev2: "case ev2 of None \<Rightarrow> True | Some e \<Rightarrow> source e \<noteq> ''api''"
    and s1: "s1 = handleEditorSelectionChangeEvent t1 t1' (Some (textEditor d sel1)) ev1 s"
    and s2: "s2 = handleEditorSelectionChangeEvent t2 t2' (Some (textEditor d sel2)) ev2 s1"
    and L1: "L1 = min (selectionStartLineNumber sel1) (positionLineNumber sel1)"
    and L2: "L2 = min (selectionStartLineNumber sel2) (positionLineNumber sel2)"
  shows "(\<bar>L1 - L2\<bar> < 10 \<longrightarrow>
            stack s2 = butlast (stack s1) @ [stack_entry d sel2 t2'] \<and>
            length (stack s2) = length (stack s1)) \<and>
         (10 \<le> \<bar>L1 - L2\<bar> \<and> (startLineNumber sel1 = startLineNumber sel2 \<or> t2 - t1' < 300) \<longrightarrow>
            stack s2 = butlast (stack s1) @ [stack_entry d sel2 t2'] \<and>
            length (stack s2) = length (stack s1)) \<and>
         (10 \<le> \<bar>L1 - L2\<bar> \<and> startLineNumber sel1 \<noteq> startLineNumber sel2 \<and> 300 \<le> t2 - t1' \<longrightarrow>
            (if length (stack s1) < 20
             then stack s2 = stack s1 @ [stack_entry d sel2 t2'] \<and>
                  length (stack s2) = length (stack s1) + 1
             else stack s2 = tl (stack s1) @ [stack_entry d sel2 t2'] \<and>
                  length (stack s2) = 20))"
proof -
  let ?cur = "stack_entry d sel1 t1'"
  let ?sel2 = "Some \<lparr> startLineNumber = startLineNumber sel2, startColumn = startColumn sel2 \<rparr>"
  from selection_event_top [OF idle ok cap, of t1 t1' d sel1 ev1]
  have cur: "js_get (stack s1) (index s1) = Some ?cur"
    and top: "index s1 + 1 = int (length (stack s1))"
    and cap1: "length (stack s1) \<le> 20"
    and idle1: "\<not> navigatingInStack s1"
    and st1: "currentTextEditorState s1 = Some (TextEditorState_new d (Some sel1))"
    unfolding s1 by simp_all
  from top have k: "nat (index s1) = length (stack s1) - 1" "nat (index s1 + 1) = length (stack s1)"
    "stack s1 \<noteq> []"
    using js_get_Some [OF cur] by auto
  have tk: "take (nat (index s1)) (stack s1) = butlast (stack s1)"
    by (simp add: butlast_conv_take k(1))
  have just: "justifiesNewPushState (TextEditorState_new d (Some sel1))
                (TextEditorState_new d (Some sel2)) ev2 \<longleftrightarrow> \<not> \<bar>L1 - L2\<bar> < 10"
    unfolding L1 L2 by (rule justifies_same_document [OF ev2])
  have ev: "stack s2 =
      stack (if \<bar>L1 - L2\<bar> < 10 then addOrReplaceInStack t2 t2' d ?sel2 True s1
             else addOrReplaceInStack t2 t2' d ?sel2 False s1)"
    unfolding s2 using idle1
    by (simp add: handleEditorSelectionChangeEvent_def handleEditorEventInStack_def textEditor_def
        handleTextEditorEvent_def add_def replace_def textEditorSelection_new Let_def st1 just)
  have same: "sameSelection (selection ?cur) ?sel2 \<longleftrightarrow> startLineNumber sel1 = startLineNumber sel2"
    by (simp add: sameSelection_def stack_entry_def)
  have m: "matches (ArgInput (Editor d)) (input ?cur)"
    by (simp add: stack_entry_def matches_preferResourceInput)
  have ts: "timestamp ?cur = t1'"
    by (simp add: stack_entry_def)
  have forced: "stack (addOrReplaceInStack t2 t2' d ?sel2 True s1) =
      butlast (stack s1) @ [stack_entry d sel2 t2']"
    using addOrReplaceInStack_replaces [OF cur, of True d ?sel2 t2 t2']
    by (simp add: tk stack_entry_def)
  have merged: "stack (addOrReplaceInStack t2 t2' d ?sel2 False s1) =
      butlast (stack s1) @ [stack_entry d sel2 t2']"
    if "startLineNumber sel1 = startLineNumber sel2 \<or> t2 - t1' < 300"
    using addOrReplaceInStack_replaces [OF cur, of False d ?sel2 t2 t2'] that
    by (simp add: tk stack_entry_def [of d sel2] m same ts MERGE_EVENT_CHANGES_THRESHOLD_def)
  have pushed: "stack (addOrReplaceInStack t2 t2' d ?sel2 False s1) =
      (if length (stack s1) < 20 then stack s1 @ [stack_entry d sel2 t2']
       else tl (stack s1) @ [stack_entry d sel2 t2'])"
    if "startLineNumber sel1 \<noteq> startLineNumber sel2" "300 \<le> t2 - t1'"
    using addOrReplaceInStack_pushes [OF cur, of False d ?sel2 t2 t2'] that cap1 k(3)
    by (simp add: k(2,3) stack_entry_def [of d sel2] m same ts MERGE_EVENT_CHANGES_THRESHOLD_def
        MAX_STACK_ITEMS_def Let_def)
  have len: "length (butlast (stack s1) @ [e]) = length (stack s1)" for e
    using k(3) by simp
  show ?thesis
  proof (intro conjI impI)
    assume "\<bar>L1 - L2\<bar> < 10"
    then show "stack s2 = butlast (stack s1) @ [stack_entry d sel2 t2']"
      by (simp add: ev forced)
    then show "length (stack s2) = length (stack s1)"
      by (simp only: len)
  next
    assume a: "10 \<le> \<bar>L1 - L2\<bar> \<and> (startLineNumber sel1 = startLineNumber sel2 \<or> t2 - t1' < 300)"
    then show "stack s2 = butlast (stack s1) @ [stack_entry d sel2 t2']"
      using merged by (simp add: ev)
    then show "length (stack s2) = length (stack s1)"
      by (simp only: len)
  next
    assume a: "10 \<le> \<bar>L1 - L2\<bar> \<and> startLineNumber sel1 \<noteq> startLineNumber sel2 \<and> 300 \<le> t2 - t1'"
    then have "stack s2 =
      (if length (stack s1) < 20 then stack s1 @ [stack_entry d sel2 t2']
       else tl (stack s1) @ [stack_entry d sel2 t2'])"
      using pushed by (simp add: ev)
    then show "if length (stack s1) < 20
             then stack s2 = stack s1 @ [stack_entry d sel2 t2'] \<and>
                  length (stack s2) = length (stack s1) + 1
             else stack s2 = tl (stack s1) @ [stack_entry d sel2 t2'] \<and>
                  length (stack s2) = 20"
      using cap1 k(3) by (cases "length (stack s1) < 20") auto
  qed
qed

theorem C4_selection_changes_witness:
  "length (stack first_move) = 1 \<and>
   length (stack (second_move 105 1000)) = 1 \<and>
   length (stack (second_move 130 1000)) = 2"
proof -
  have idle: "\<not> navigatingInStack (init None)" and ok: "cursor_ok (init None)"
    and cap: "length (stack (init None)) \<le> 20"
    by code_simp+
  have ev2: "case None :: ICursorPositionChangedEvent option of
               None \<Rightarrow> True | Some e \<Rightarrow> source e \<noteq> ''api''"
    by simp
  have s1: "first_move =
      handleEditorSelectionChangeEvent 0 0 (Some (textEditor docA (selection_at 100))) None (init None)"
    by (simp add: first_move_def)
  have near: "second_move 105 1000 =
      handleEditorSelectionChangeEvent 1000 1000 (Some (textEditor docA (selection_at 105))) None first_move"
    and far: "second_move 130 1000 =
      handleEditorSelectionChangeEvent 1000 1000 (Some (textEditor docA (selection_at 130))) None first_move"
    by (simp_all add: second_move_def)
  have L: "n = min (selectionStartLineNumber (selection_at n)) (positionLineNumber (selection_at n))"
    "startLineNumber (selection_at n) = n" for n
    by (simp_all add: selection_at_def)
  have one: "length (stack first_move) = 1"
    by code_simp
  from C4_selection_changes [OF idle ok cap ev2 s1 near L(1) L(1)]
  have a: "length (stack (second_move 105 1000)) = 1"
    by (simp add: one)
  from C4_selection_changes [OF idle ok cap ev2 s1 far L(1) L(1)]
  have b: "length (stack (second_move 130 1000)) = 2"
    by (simp add: one L(2))
  from one a b show ?thesis
    by simp
qed

text \<open>
  Line 100 and then line 130 of the same document, 100ms later: the lines differ by 30, and
  the stack still holds one entry.
\<close>

theorem C4_selection_changes_counterexample:
  "10 \<le> \<bar>min (selectionStartLineNumber (selection_at 100)) (positionLineNumber (selection_at 100)) -
          min (selectionStartLineNumber (selection_at 130)) (positionLineNumber (selection_at 130))\<bar> \<and>
   length (stack first_move) = 1 \<and>
   length (stack (second_move 130 100)) = 1"
  by code_simp

end
